theory Spec2Isabelle
  imports Complex_Main "HOL-Library.Word" "HOL-Library.Signed_Division" "HOL-Library.Monad_Syntax"
begin

section \<open>Data model\<close>

text \<open>
  A shallow embedding of \<^verbatim>\<open>src/Fl_Image_Surface.cxx\<close> (FLTK draw-to-image code).
  Bytes (\<^verbatim>\<open>uchar\<close>) are 8-bit words. A C \<^verbatim>\<open>int\<close> is an integer; where the code
  multiplies two of them to index a buffer, a product outside the 32-bit range is the
  undefined behaviour of signed overflow (\<open>c_int\<close>). A pixel buffer is a list of bytes, a
  pointer into it is an offset, and every read or write through a pointer is
  bounds-checked. \<open>None\<close> is undefined behaviour throughout. The counters of the handle
  registry count live surfaces and stay far below the range of \<^verbatim>\<open>int\<close>.
\<close>

type_synonym uchar = "8 word"

text \<open>
  The fields of \<^verbatim>\<open>Fl_RGB_Image\<close> (declared in \<^verbatim>\<open>FL/Fl_Image.H\<close>) that this file reads
  or sets: the pixel array, the pixel dimensions \<^verbatim>\<open>data_w()\<close>, \<^verbatim>\<open>data_h()\<close>, the depth
  \<^verbatim>\<open>d()\<close>, the row stride \<^verbatim>\<open>ld()\<close> (0 means none given), the drawing size \<^verbatim>\<open>w()\<close>,
  \<^verbatim>\<open>h()\<close> that \<^verbatim>\<open>scale()\<close> sets, and the ownership flag \<^verbatim>\<open>alloc_array\<close>.
\<close>

record Fl_RGB_Image =
  array :: "uchar list"
  data_w :: int
  data_h :: int
  img_d :: int
  img_ld :: int
  img_w :: int
  img_h :: int
  alloc_array :: int

text \<open>The value of an \<^verbatim>\<open>int\<close> expression whose mathematical value is \<open>x\<close>.\<close>

definition c_int :: "int \<Rightarrow> int option" where
  "c_int x = (if - 2147483648 \<le> x \<and> x \<le> 2147483647 then Some x else None)"

section \<open>PixelMaskCompositor: \<^verbatim>\<open>Fl_Image_Surface_Driver::copy_with_mask\<close>\<close>

text \<open>Dereferencing \<^verbatim>\<open>*p\<close> for reading and for writing, at offset \<open>p\<close> of a buffer.\<close>

definition rd :: "'a list \<Rightarrow> int \<Rightarrow> 'a option" where
  "rd xs p = (if 0 \<le> p \<and> p < int (length xs) then Some (xs ! nat p) else None)"

definition wr :: "'a list \<Rightarrow> int \<Rightarrow> 'a \<Rightarrow> 'a list option" where
  "wr xs p x = (if 0 \<le> p \<and> p < int (length xs) then Some (xs[nat p := x]) else None)"

text \<open>
  One statement \<^verbatim>\<open>*dst = ((*dst) * v + (*src) * u)/255; dst++; src++;\<close>. The operands are
  promoted to \<^verbatim>\<open>int\<close>, the division is C's (truncating, \<open>sdiv\<close>), and the result is
  converted back to \<^verbatim>\<open>uchar\<close>.
\<close>

definition mix :: "uchar \<Rightarrow> uchar \<Rightarrow> uchar \<Rightarrow> uchar \<Rightarrow> uchar" where
  "mix d s u v = word_of_int ((uint d * uint v + uint s * uint u) sdiv 255)"

definition mix_channel :: "uchar list \<Rightarrow> uchar \<Rightarrow> uchar \<Rightarrow> uchar list \<times> int \<times> int \<Rightarrow> (uchar list \<times> int \<times> int) option" where
  "mix_channel src_buf u v st = (case st of (dst_buf, dst, src) \<Rightarrow>
     do { d \<leftarrow> rd dst_buf dst;
          s \<leftarrow> rd src_buf src;
          dst_buf' \<leftarrow> wr dst_buf dst (mix d s u v);
          Some (dst_buf', dst + 1, src + 1) })"

text \<open>
  The inner loop \<^verbatim>\<open>for (int j = 0; j < w; j++)\<close> over the pixels of one row, with
  \<^verbatim>\<open>uchar u = *alpha++, v = 255 - u;\<close> and the three channel statements.
\<close>

function copy_with_mask_row ::
  "uchar list \<Rightarrow> uchar list \<Rightarrow> int \<Rightarrow> int \<Rightarrow> int \<Rightarrow> uchar list \<times> int \<times> int \<Rightarrow> uchar list option" where
  "copy_with_mask_row mask_arr src_buf w j alpha st =
     (if j < w then
        do { u \<leftarrow> rd mask_arr alpha;
             st1 \<leftarrow> mix_channel src_buf u (word_of_int (255 - uint u)) st;
             st2 \<leftarrow> mix_channel src_buf u (word_of_int (255 - uint u)) st1;
             st3 \<leftarrow> mix_channel src_buf u (word_of_int (255 - uint u)) st2;
             copy_with_mask_row mask_arr src_buf w (j + 1) (alpha + 1) st3 }
      else Some (fst st))"
  by pat_completeness auto
termination
  by (relation "measure (\<lambda>(m, s, w, j, a, st). nat (w - j))") auto

text \<open>
  The outer loop \<^verbatim>\<open>for (int i = 0; i < h; i++)\<close>: \<^verbatim>\<open>alpha\<close> starts at row
  \<^verbatim>\<open>(bottom_to_top ? (h-i-1) : i)\<close> of the mask, \<^verbatim>\<open>src\<close> and \<^verbatim>\<open>dst\<close> at
  \<^verbatim>\<open>i * line_size\<close>.
\<close>

function copy_with_mask_rows ::
  "uchar list \<Rightarrow> uchar list \<Rightarrow> int \<Rightarrow> bool \<Rightarrow> int \<Rightarrow> int \<Rightarrow> int \<Rightarrow> uchar list \<Rightarrow> uchar list option" where
  "copy_with_mask_rows mask_arr dib_src line_size bottom_to_top w h i dib_dst =
     (if i < h then
        do { alpha \<leftarrow> c_int ((if bottom_to_top then h - i - 1 else i) * w);
             off \<leftarrow> c_int (i * line_size);
             dib_dst' \<leftarrow> copy_with_mask_row mask_arr dib_src w 0 alpha (dib_dst, off, off);
             copy_with_mask_rows mask_arr dib_src line_size bottom_to_top w h (i + 1) dib_dst' }
      else Some dib_dst)"
  by pat_completeness auto
termination
  by (relation "measure (\<lambda>(m, s, l, b, w, h, i, d). nat (h - i))") auto

definition copy_with_mask ::
  "Fl_RGB_Image \<Rightarrow> uchar list \<Rightarrow> uchar list \<Rightarrow> int \<Rightarrow> bool \<Rightarrow> uchar list option" where
  "copy_with_mask mask_img dib_dst dib_src line_size bottom_to_top =
     (let w = data_w mask_img; h = data_h mask_img
      in copy_with_mask_rows (array mask_img) dib_src line_size bottom_to_top w h 0 dib_dst)"

text \<open>The value one channel statement stores, with \<open>v = 255 - u\<close> as the loop computes it.\<close>

definition blend :: "uchar \<Rightarrow> uchar \<Rightarrow> uchar \<Rightarrow> uchar" where
  "blend d s u = mix d s u (word_of_int (255 - uint u))"

text \<open>
  The mask with its rows reversed, as the row-order property words it: the first
  \<open>h\<close> rows of \<open>w\<close> bytes, in reverse order.
\<close>

definition mask_rows :: "nat \<Rightarrow> nat \<Rightarrow> 'a list \<Rightarrow> 'a list list" where
  "mask_rows w h xs = map (\<lambda>r. take w (drop (r * w) xs)) [0..<h]"

definition reverse_rows :: "nat \<Rightarrow> nat \<Rightarrow> 'a list \<Rightarrow> 'a list" where
  "reverse_rows w h xs = concat (rev (mask_rows w h xs))"

section \<open>LuminanceReducer: \<^verbatim>\<open>Fl_Image_Surface_Driver::RGB3_to_RGB1\<close>\<close>

text \<open>
  Objects created with \<^verbatim>\<open>new\<close> live in a heap: a list of cells, the address of an object
  being its index. \<^verbatim>\<open>new\<close> appends a cell, so the address it returns is fresh;
  \<^verbatim>\<open>delete\<close> empties the cell. Reading or deleting through an address that holds no
  object is undefined behaviour (\<open>None\<close>). An image object carries its pixel array.
\<close>

type_synonym 'a heap = "'a option list"

definition heap_get :: "'a heap \<Rightarrow> nat \<Rightarrow> 'a option" where
  "heap_get hp p = (if p < length hp then hp ! p else None)"

definition heap_new :: "'a heap \<Rightarrow> 'a \<Rightarrow> nat \<times> 'a heap" where
  "heap_new hp x = (length hp, hp @ [Some x])"

definition heap_set :: "'a heap \<Rightarrow> nat \<Rightarrow> 'a \<Rightarrow> 'a heap option" where
  "heap_set hp p x = (case heap_get hp p of None \<Rightarrow> None | Some _ \<Rightarrow> Some (hp[p := Some x]))"

definition heap_delete :: "'a heap \<Rightarrow> nat \<Rightarrow> 'a heap option" where
  "heap_delete hp p = (case heap_get hp p of None \<Rightarrow> None | Some _ \<Rightarrow> Some (hp[p := None]))"

text \<open>
  The constructor \<^verbatim>\<open>Fl_RGB_Image(bits, W, H, D, LD)\<close> (\<^verbatim>\<open>FL/Fl_Image.H\<close>): the drawing
  size starts as the pixel size, and the array is not owned.
\<close>

definition Fl_RGB_Image_new :: "uchar list \<Rightarrow> int \<Rightarrow> int \<Rightarrow> int \<Rightarrow> int \<Rightarrow> Fl_RGB_Image" where
  "Fl_RGB_Image_new bits W H D LD =
     \<lparr>array = bits, data_w = W, data_h = H, img_d = D, img_ld = LD,
      img_w = W, img_h = H, alloc_array = 0\<rparr>"

text \<open>
  \<^verbatim>\<open>new uchar[n]\<close>: a negative size throws. The bytes are uninitialised in C; they are 0
  here, and the loops below write every one of them before the buffer is used.
\<close>

definition new_uchar_array :: "int \<Rightarrow> uchar list option" where
  "new_uchar_array n = (if n < 0 then None else Some (replicate (nat n) 0))"

text \<open>
  The inner loop \<^verbatim>\<open>for (j = 0; j < W; j++)\<close> with
  \<^verbatim>\<open>*p++ = (*alpha + *(alpha+1) + *(alpha+2)) / 3; alpha += 3;\<close>. The state is the output
  buffer and the offset \<open>p\<close> in it.
\<close>

function RGB3_to_RGB1_row ::
  "uchar list \<Rightarrow> int \<Rightarrow> int \<Rightarrow> int \<Rightarrow> uchar list \<times> int \<Rightarrow> (uchar list \<times> int) option" where
  "RGB3_to_RGB1_row arr W j alpha st =
     (if j < W then
        do { a0 \<leftarrow> rd arr alpha;
             a1 \<leftarrow> rd arr (alpha + 1);
             a2 \<leftarrow> rd arr (alpha + 2);
             data' \<leftarrow> wr (fst st) (snd st) (word_of_int ((uint a0 + uint a1 + uint a2) sdiv 3));
             RGB3_to_RGB1_row arr W (j + 1) (alpha + 3) (data', snd st + 1) }
      else Some st)"
  by pat_completeness auto
termination
  by (relation "measure (\<lambda>(a, W, j, al, st). nat (W - j))") auto

text \<open>The byte one iteration stores.\<close>

definition lum :: "uchar \<Rightarrow> uchar \<Rightarrow> uchar \<Rightarrow> uchar" where
  "lum a0 a1 a2 = word_of_int ((uint a0 + uint a1 + uint a2) sdiv 3)"

text \<open>The outer loop \<^verbatim>\<open>for (i = 0; i < H; i++)\<close> with \<^verbatim>\<open>alpha = rgb3->array + i * ld\<close>.\<close>

function RGB3_to_RGB1_rows ::
  "uchar list \<Rightarrow> int \<Rightarrow> int \<Rightarrow> int \<Rightarrow> int \<Rightarrow> uchar list \<times> int \<Rightarrow> (uchar list \<times> int) option" where
  "RGB3_to_RGB1_rows arr ld W H i st =
     (if i < H then
        do { alpha \<leftarrow> c_int (i * ld);
             st' \<leftarrow> RGB3_to_RGB1_row arr W 0 alpha st;
             RGB3_to_RGB1_rows arr ld W H (i + 1) st' }
      else Some st)"
  by pat_completeness auto
termination
  by (relation "measure (\<lambda>(a, l, W, H, i, st). nat (H - i))") auto

text \<open>
  Modelled from the spec: \<^verbatim>\<open>Fl_RGB_Image::copy(W, H)\<close> (\<^verbatim>\<open>Fl_Image.cxx\<close>, not in
  \<^verbatim>\<open>src/\<close>), the image-resampling collaborator. Spec, LuminanceReducer: the source is
  resampled to \<open>(W, H)\<close> and the reducer works on the resampled copy, a temporary that is
  released before returning. So the call creates one new image object and leaves every
  other object alone. The pixels it computes are the parameter \<open>copy_image\<close> (\<open>None\<close> for
  a null return).
\<close>

definition Fl_RGB_Image_copy ::
  "(Fl_RGB_Image \<Rightarrow> int \<Rightarrow> int \<Rightarrow> Fl_RGB_Image option) \<Rightarrow> Fl_RGB_Image heap \<Rightarrow> Fl_RGB_Image \<Rightarrow> int \<Rightarrow> int
     \<Rightarrow> (nat \<times> Fl_RGB_Image heap) option" where
  "Fl_RGB_Image_copy copy_image hp img W H = map_option (heap_new hp) (copy_image img W H)"

text \<open>
  \<^verbatim>\<open>RGB3_to_RGB1(rgb3, W, H)\<close>. \<^verbatim>\<open>delete rgb3\<close> removes the resampled copy, when there is
  one.
\<close>

definition RGB3_to_RGB1 ::
  "(Fl_RGB_Image \<Rightarrow> int \<Rightarrow> int \<Rightarrow> Fl_RGB_Image option) \<Rightarrow> Fl_RGB_Image heap \<Rightarrow> nat \<Rightarrow> int \<Rightarrow> int
     \<Rightarrow> (nat \<times> Fl_RGB_Image heap) option" where
  "RGB3_to_RGB1 copy_image hp rgb3 W H =
     do { img0 \<leftarrow> heap_get hp rgb3;
          let need_copy = (W \<noteq> data_w img0 \<or> H \<noteq> data_h img0);
          (rgb3', hp1) \<leftarrow> (if need_copy
                           then Fl_RGB_Image_copy copy_image hp img0 W H
                           else Some (rgb3, hp));
          n \<leftarrow> c_int (W * H);
          data \<leftarrow> new_uchar_array n;
          img \<leftarrow> heap_get hp1 rgb3';
          ld \<leftarrow> (if img_ld img = 0 then c_int (3 * W) else Some (img_ld img));
          (data', p) \<leftarrow> RGB3_to_RGB1_rows (array img) ld W H 0 (data, 0);
          let (rgb1, hp2) = heap_new hp1 ((Fl_RGB_Image_new data' W H 1 0)\<lparr>alloc_array := 1\<rparr>);
          hp3 \<leftarrow> (if need_copy then heap_delete hp2 rgb3' else Some hp2);
          Some (rgb1, hp3) }"

section \<open>ScaledSurface: \<^verbatim>\<open>Fl_Image_Surface\<close> and its platform driver\<close>

text \<open>
  \<^verbatim>\<open>Fl_Offscreen\<close> is an opaque platform handle; 0 is the null handle. The pixel buffer a
  handle \<open>off > 0\<close> names lives at address \<open>off - 1\<close> of a heap of platform buffers.
\<close>

type_synonym Fl_Offscreen = nat

record pixel_buffer =
  buf_w :: int
  buf_h :: int
  buf_pixels :: "uchar list"

text \<open>
  \<^verbatim>\<open>Fl_Image_Surface_Driver\<close> (declared in \<^verbatim>\<open>FL/Fl_Image_Surface.H\<close>): the fields this file
  uses, and whether the buffer was supplied by the caller.
\<close>

record Fl_Image_Surface_Driver =
  width :: int
  height :: int
  offscreen :: Fl_Offscreen
  image_surface :: "nat option"
  external_offscreen :: bool

record Fl_Image_Surface =
  platform_surface :: "nat option"

text \<open>
  A drawing destination (\<^verbatim>\<open>Fl_Surface_Device *\<close>): the display, a platform driver or an
  \<^verbatim>\<open>Fl_Image_Surface\<close>, the last two by their address.
\<close>

datatype Fl_Surface_Device = Display_Device | Driver_Device nat | Surface_Device nat

text \<open>A cell of an array obtained from \<^verbatim>\<open>realloc\<close>: not yet written, or holding a value.\<close>

datatype 'a cell = Uninit | Val 'a

definition rd_cell :: "'a cell list \<Rightarrow> int \<Rightarrow> 'a option" where
  "rd_cell xs p = (case rd xs p of Some (Val x) \<Rightarrow> Some x | _ \<Rightarrow> None)"

text \<open>
  The state the functions of this file work on: the heaps of surfaces, drivers, images and
  platform buffers; \<^verbatim>\<open>Fl_Surface_Device::surface_\<close> and the stack of
  \<^verbatim>\<open>push_current\<close>; the current scale factor of the display; and the three statics of
  the handle registry (\<^verbatim>\<open>max\<close> of \<^verbatim>\<open>find_slot\<close> is \<open>max_offscreens\<close>).
\<close>

record world =
  surfaces :: "Fl_Image_Surface heap"
  drivers :: "Fl_Image_Surface_Driver heap"
  images :: "Fl_RGB_Image heap"
  offscreens :: "pixel_buffer heap"
  current_surface :: Fl_Surface_Device
  surface_stack :: "Fl_Surface_Device list"
  screen_scale :: rat
  offscreen_api_surface :: "nat option cell list"
  count_offscreens :: int
  max_offscreens :: int

definition initial_world :: "rat \<Rightarrow> world" where
  "initial_world s =
     \<lparr>surfaces = [], drivers = [], images = [], offscreens = [],
      current_surface = Display_Device, surface_stack = [], screen_scale = s,
      offscreen_api_surface = [], count_offscreens = 0, max_offscreens = 0\<rparr>"

definition offscreen_get :: "world \<Rightarrow> Fl_Offscreen \<Rightarrow> pixel_buffer option" where
  "offscreen_get wld off = (if off = 0 then None else heap_get (offscreens wld) (off - 1))"

subsection \<open>The platform side\<close>

text \<open>
  Modelled from the spec: \<^verbatim>\<open>Fl_Image_Surface_Driver::newImageSurfaceDriver\<close> and the
  driver's constructor, which are platform code and a header that are not in \<^verbatim>\<open>src/\<close>.
  Spec, Construct: a supplied buffer is wrapped as it is, in borrowed mode, whatever
  \<open>high_res\<close> says; otherwise a new owned buffer is allocated, of the size
  \<open>round (logical * scale)\<close> for the current scale factor when \<open>high_res\<close> is set and of
  the logical size otherwise. The fields \<open>width\<close> and \<open>height\<close> keep the two arguments:
  they are what \<^verbatim>\<open>printable_rect\<close> returns, what \<^verbatim>\<open>rescale\<close> passes on as the size in
  FLTK units of the new driver, and what the comment of \<^verbatim>\<open>highres_image\<close> calls the size
  in FLTK units, next to a pixel size that may be larger. A new buffer holds zeros.
\<close>

definition blank_buffer :: "int \<Rightarrow> int \<Rightarrow> pixel_buffer" where
  "blank_buffer pw ph = \<lparr>buf_w = pw, buf_h = ph, buf_pixels = replicate (nat (3 * pw * ph)) 0\<rparr>"

definition newImageSurfaceDriver :: "int \<Rightarrow> int \<Rightarrow> int \<Rightarrow> Fl_Offscreen \<Rightarrow> world \<Rightarrow> nat \<times> world" where
  "newImageSurfaceDriver w h high_res off wld =
     (if off \<noteq> 0 then
        (let (p, ds) = heap_new (drivers wld)
                         \<lparr>width = w, height = h, offscreen = off, image_surface = None,
                          external_offscreen = True\<rparr>
         in (p, wld\<lparr>drivers := ds\<rparr>))
      else
        (let pw = (if high_res \<noteq> 0 then round (of_int w * screen_scale wld) else w);
             ph = (if high_res \<noteq> 0 then round (of_int h * screen_scale wld) else h);
             (b, bs) = heap_new (offscreens wld) (blank_buffer pw ph);
             (p, ds) = heap_new (drivers wld)
                         \<lparr>width = w, height = h, offscreen = b + 1, image_surface = None,
                          external_offscreen = False\<rparr>
         in (p, wld\<lparr>offscreens := bs, drivers := ds\<rparr>)))"

text \<open>
  Modelled from the spec: the driver's destructor (platform code). Spec, Destroy: the
  owned buffer is released; a borrowed one is left to the caller. \<^verbatim>\<open>delete\<close> of a null
  pointer does nothing.
\<close>

definition delete_driver :: "nat option \<Rightarrow> world \<Rightarrow> world option" where
  "delete_driver ps wld =
     (case ps of
        None \<Rightarrow> Some wld
      | Some p \<Rightarrow>
          do { drv \<leftarrow> heap_get (drivers wld) p;
               bs \<leftarrow> (if offscreen drv \<noteq> 0 \<and> \<not> external_offscreen drv
                      then heap_delete (offscreens wld) (offscreen drv - 1)
                      else Some (offscreens wld));
               ds \<leftarrow> heap_delete (drivers wld) p;
               Some (wld\<lparr>offscreens := bs, drivers := ds\<rparr>) })"

text \<open>
  Modelled from the spec: the driver's \<^verbatim>\<open>set_current\<close> (platform code) makes the driver
  the active destination.
\<close>

definition driver_set_current :: "nat \<Rightarrow> world \<Rightarrow> world option" where
  "driver_set_current p wld =
     do { drv \<leftarrow> heap_get (drivers wld) p;
          Some (wld\<lparr>current_surface := Driver_Device p\<rparr>) }"

text \<open>
  \<^verbatim>\<open>Fl_Image_Surface::set_current\<close>:
  \<^verbatim>\<open>if (platform_surface) platform_surface->set_current();\<close>
\<close>

definition Fl_Image_Surface_set_current :: "nat \<Rightarrow> world \<Rightarrow> world option" where
  "Fl_Image_Surface_set_current this wld =
     do { surf \<leftarrow> heap_get (surfaces wld) this;
          case platform_surface surf of
            None \<Rightarrow> Some wld
          | Some p \<Rightarrow> driver_set_current p wld }"

text \<open>The virtual call \<^verbatim>\<open>dev->set_current()\<close>.\<close>

fun set_current :: "Fl_Surface_Device \<Rightarrow> world \<Rightarrow> world option" where
  "set_current Display_Device wld = Some (wld\<lparr>current_surface := Display_Device\<rparr>)"
| "set_current (Driver_Device p) wld = driver_set_current p wld"
| "set_current (Surface_Device s) wld = Fl_Image_Surface_set_current s wld"

text \<open>
  Modelled from the spec: \<^verbatim>\<open>Fl_Surface_Device::push_current\<close> and \<^verbatim>\<open>pop_current\<close>
  (\<^verbatim>\<open>Fl_Device.cxx\<close>, not in \<^verbatim>\<open>src/\<close>), the activation protocol: make a surface
  the active target, and restore the previous one. A null pointer cannot be activated;
  popping an empty stack does nothing.
\<close>

definition push_current :: "Fl_Surface_Device option \<Rightarrow> world \<Rightarrow> world option" where
  "push_current new_current wld =
     (case new_current of
        None \<Rightarrow> None
      | Some dev \<Rightarrow> set_current dev (wld\<lparr>surface_stack := current_surface wld # surface_stack wld\<rparr>))"

definition pop_current :: "world \<Rightarrow> world option" where
  "pop_current wld =
     (case surface_stack wld of
        [] \<Rightarrow> Some wld
      | dev # rest \<Rightarrow> set_current dev (wld\<lparr>surface_stack := rest\<rparr>))"

text \<open>
  Modelled from the spec: the driver's \<^verbatim>\<open>end_current\<close> (platform code). Spec, Destroy:
  a surface that is active is deactivated first, and deactivation pops the activation
  stack.
\<close>

definition end_current :: "nat option \<Rightarrow> world \<Rightarrow> world option" where
  "end_current ps wld = (case ps of None \<Rightarrow> None | Some p \<Rightarrow> pop_current wld)"

text \<open>
  Modelled from the spec: the driver's \<^verbatim>\<open>image()\<close> (platform code), the pixel-extraction
  protocol: the content of the pixel buffer as a new RGB image of the buffer's pixel size
  that owns its data.
\<close>

definition snapshot :: "pixel_buffer \<Rightarrow> Fl_RGB_Image" where
  "snapshot buf = (Fl_RGB_Image_new (buf_pixels buf) (buf_w buf) (buf_h buf) 3 0)\<lparr>alloc_array := 1\<rparr>"

definition driver_image :: "nat option \<Rightarrow> world \<Rightarrow> (nat \<times> world) option" where
  "driver_image ps wld =
     do { p \<leftarrow> ps;
          drv \<leftarrow> heap_get (drivers wld) p;
          buf \<leftarrow> offscreen_get wld (offscreen drv);
          let (img, is) = heap_new (images wld) (snapshot buf);
          Some (img, wld\<lparr>images := is\<rparr>) }"

text \<open>
  Modelled from the spec: \<^verbatim>\<open>Fl_Image::scale(width, height, proportional, can_expand)\<close>
  (\<^verbatim>\<open>Fl_Image.cxx\<close>, not in \<^verbatim>\<open>src/\<close>) sets the size the image reports, and
  leaves its pixel data alone.
\<close>

definition Fl_Image_scale :: "nat \<Rightarrow> int \<Rightarrow> int \<Rightarrow> int \<Rightarrow> int \<Rightarrow> world \<Rightarrow> world option" where
  "Fl_Image_scale img w h proportional can_expand wld =
     do { i \<leftarrow> heap_get (images wld) img;
          is \<leftarrow> heap_set (images wld) img (i\<lparr>img_w := w, img_h := h\<rparr>);
          Some (wld\<lparr>images := is\<rparr>) }"

text \<open>
  \<^verbatim>\<open>Fl_RGB_Image::draw(x, y)\<close> draws into the active destination. The rendering backend
  is out of scope: what it makes of a buffer is the parameter \<open>draw\<close>. Drawing to the
  display leaves the state of this model alone.
\<close>

definition Fl_RGB_Image_draw ::
  "(Fl_RGB_Image \<Rightarrow> int \<Rightarrow> int \<Rightarrow> pixel_buffer \<Rightarrow> pixel_buffer) \<Rightarrow> nat \<Rightarrow> int \<Rightarrow> int \<Rightarrow> world
     \<Rightarrow> world option" where
  "Fl_RGB_Image_draw draw img x y wld =
     do { i \<leftarrow> heap_get (images wld) img;
          case current_surface wld of
            Driver_Device p \<Rightarrow>
              do { drv \<leftarrow> heap_get (drivers wld) p;
                   buf \<leftarrow> offscreen_get wld (offscreen drv);
                   bs \<leftarrow> heap_set (offscreens wld) (offscreen drv - 1) (draw i x y buf);
                   Some (wld\<lparr>offscreens := bs\<rparr>) }
          | _ \<Rightarrow> Some wld }"

definition delete_image :: "nat \<Rightarrow> world \<Rightarrow> world option" where
  "delete_image img wld =
     do { is \<leftarrow> heap_delete (images wld) img;
          Some (wld\<lparr>images := is\<rparr>) }"

subsection \<open>The functions of \<^verbatim>\<open>Fl_Image_Surface\<close>\<close>

text \<open>
  The constructor, for \<^verbatim>\<open>new Fl_Image_Surface(w, h, high_res, off)\<close>:
  \<^verbatim>\<open>platform_surface = newImageSurfaceDriver(w, h, high_res, off);
  platform_surface->image_surface_ = this;\<close>
\<close>

definition Fl_Image_Surface_new :: "int \<Rightarrow> int \<Rightarrow> int \<Rightarrow> Fl_Offscreen \<Rightarrow> world \<Rightarrow> (nat \<times> world) option" where
  "Fl_Image_Surface_new w h high_res off wld =
     (let (this, ss) = heap_new (surfaces wld) \<lparr>platform_surface = None\<rparr>;
          (p, w1) = newImageSurfaceDriver w h high_res off (wld\<lparr>surfaces := ss\<rparr>)
      in do { ss' \<leftarrow> heap_set (surfaces w1) this \<lparr>platform_surface = Some p\<rparr>;
              drv \<leftarrow> heap_get (drivers w1) p;
              ds' \<leftarrow> heap_set (drivers w1) p (drv\<lparr>image_surface := Some this\<rparr>);
              Some (this, w1\<lparr>surfaces := ss', drivers := ds'\<rparr>) })"

text \<open>\<^verbatim>\<open>is_current\<close>: \<^verbatim>\<open>return surface() == platform_surface;\<close>\<close>

definition is_current :: "nat \<Rightarrow> world \<Rightarrow> bool option" where
  "is_current this wld =
     do { surf \<leftarrow> heap_get (surfaces wld) this;
          Some (Some (current_surface wld) = map_option Driver_Device (platform_surface surf)) }"

text \<open>
  The destructor, for \<^verbatim>\<open>delete surface\<close>:
  \<^verbatim>\<open>if (is_current()) platform_surface->end_current(); delete platform_surface;\<close>
\<close>

definition Fl_Image_Surface_delete :: "nat \<Rightarrow> world \<Rightarrow> world option" where
  "Fl_Image_Surface_delete this wld =
     do { surf \<leftarrow> heap_get (surfaces wld) this;
          cur \<leftarrow> is_current this wld;
          w1 \<leftarrow> (if cur then end_current (platform_surface surf) wld else Some wld);
          w2 \<leftarrow> delete_driver (platform_surface surf) w1;
          ss \<leftarrow> heap_delete (surfaces w2) this;
          Some (w2\<lparr>surfaces := ss\<rparr>) }"

text \<open>
  \<^verbatim>\<open>offscreen()\<close>:
  \<^verbatim>\<open>return platform_surface ? platform_surface->offscreen : (Fl_Offscreen)0;\<close>
\<close>

definition Fl_Image_Surface_offscreen :: "nat \<Rightarrow> world \<Rightarrow> Fl_Offscreen option" where
  "Fl_Image_Surface_offscreen this wld =
     do { surf \<leftarrow> heap_get (surfaces wld) this;
          case platform_surface surf of
            None \<Rightarrow> Some 0
          | Some p \<Rightarrow> map_option offscreen (heap_get (drivers wld) p) }"

text \<open>
  \<^verbatim>\<open>Fl_Image_Surface_Driver::printable_rect\<close>: \<^verbatim>\<open>*w = width; *h = height; return 0;\<close>
  and \<^verbatim>\<open>Fl_Image_Surface::printable_rect\<close>, which calls it through \<^verbatim>\<open>platform_surface\<close>.
  The result is \<open>(w, h)\<close>.
\<close>

definition driver_printable_rect :: "nat option \<Rightarrow> world \<Rightarrow> (int \<times> int) option" where
  "driver_printable_rect ps wld =
     do { p \<leftarrow> ps;
          drv \<leftarrow> heap_get (drivers wld) p;
          Some (width drv, height drv) }"

definition printable_rect :: "nat \<Rightarrow> world \<Rightarrow> (int \<times> int) option" where
  "printable_rect this wld =
     do { surf \<leftarrow> heap_get (surfaces wld) this;
          driver_printable_rect (platform_surface surf) wld }"

text \<open>
  The body of \<^verbatim>\<open>image()\<close>, statement by statement. The result is the address of the new
  image with the state after each statement that can change it: after
  \<^verbatim>\<open>if (need_push) push_current(platform_surface)\<close>, after \<^verbatim>\<open>platform_surface->image()\<close>,
  after \<^verbatim>\<open>if (need_push) pop_current()\<close> and after \<^verbatim>\<open>img->scale(...)\<close>.
\<close>

definition Fl_Image_Surface_image_states ::
  "nat \<Rightarrow> world \<Rightarrow> (nat \<times> world \<times> world \<times> world \<times> world) option" where
  "Fl_Image_Surface_image_states this wld =
     do { surf \<leftarrow> heap_get (surfaces wld) this;
          let need_push = (Some (current_surface wld) \<noteq> map_option Driver_Device (platform_surface surf));
          w1 \<leftarrow> (if need_push
                 then push_current (map_option Driver_Device (platform_surface surf)) wld
                 else Some wld);
          (img, w2) \<leftarrow> driver_image (platform_surface surf) w1;
          w3 \<leftarrow> (if need_push then pop_current w2 else Some w2);
          p \<leftarrow> platform_surface surf;
          drv \<leftarrow> heap_get (drivers w3) p;
          w4 \<leftarrow> Fl_Image_scale img (width drv) (height drv) 1 1 w3;
          Some (img, w1, w2, w3, w4) }"

text \<open>\<^verbatim>\<open>image()\<close>: the image it returns and the state it returns in.\<close>

definition Fl_Image_Surface_image :: "nat \<Rightarrow> world \<Rightarrow> (nat \<times> world) option" where
  "Fl_Image_Surface_image this wld =
     map_option (\<lambda>(img, w1, w2, w3, w4). (img, w4)) (Fl_Image_Surface_image_states this wld)"

text \<open>
  \<^verbatim>\<open>highres_image()\<close>: \<open>None\<close> is the \<^verbatim>\<open>NULL\<close> it returns. \<^verbatim>\<open>Fl_Shared_Image::get\<close>
  wraps the image; the shared image is the image here.
\<close>

definition highres_image :: "nat \<Rightarrow> world \<Rightarrow> (nat option \<times> world) option" where
  "highres_image this wld =
     do { surf \<leftarrow> heap_get (surfaces wld) this;
          case platform_surface surf of
            None \<Rightarrow> Some (None, wld)
          | Some p \<Rightarrow>
              do { (s_img, w1) \<leftarrow> Fl_Image_Surface_image this wld;
                   (w, h) \<leftarrow> driver_printable_rect (platform_surface surf) w1;
                   w2 \<leftarrow> Fl_Image_scale s_img w h 1 1 w1;
                   Some (Some s_img, w2) } }"

text \<open>
  \<^verbatim>\<open>rescale()\<close>:
  \<^verbatim>\<open>Fl_RGB_Image *rgb = image(); printable_rect(&w, &h); delete platform_surface;
  platform_surface = newImageSurfaceDriver(w, h, 1, 0); push_current(this);
  rgb->draw(0,0); pop_current(); delete rgb;\<close>
\<close>

definition rescale ::
  "(Fl_RGB_Image \<Rightarrow> int \<Rightarrow> int \<Rightarrow> pixel_buffer \<Rightarrow> pixel_buffer) \<Rightarrow> nat \<Rightarrow> world \<Rightarrow> world option" where
  "rescale draw this wld =
     do { (rgb, w1) \<leftarrow> Fl_Image_Surface_image this wld;
          (w, h) \<leftarrow> printable_rect this w1;
          surf \<leftarrow> heap_get (surfaces w1) this;
          w2 \<leftarrow> delete_driver (platform_surface surf) w1;
          let (p, w3) = newImageSurfaceDriver w h 1 0 w2;
          ss \<leftarrow> heap_set (surfaces w3) this (surf\<lparr>platform_surface := Some p\<rparr>);
          w5 \<leftarrow> push_current (Some (Surface_Device this)) (w3\<lparr>surfaces := ss\<rparr>);
          w6 \<leftarrow> Fl_RGB_Image_draw draw rgb 0 0 w5;
          w7 \<leftarrow> pop_current w6;
          delete_image rgb w7 }"

text \<open>
  An active destination that can be activated again: the display, or a driver that is
  alive. (\<^verbatim>\<open>surface_\<close> never holds an \<^verbatim>\<open>Fl_Image_Surface\<close>: its \<^verbatim>\<open>set_current\<close>
  activates the driver.)
\<close>

definition device_live :: "world \<Rightarrow> Fl_Surface_Device \<Rightarrow> bool" where
  "device_live wld dev =
     (case dev of
        Display_Device \<Rightarrow> True
      | Driver_Device q \<Rightarrow> heap_get (drivers wld) q \<noteq> None
      | Surface_Device s \<Rightarrow> False)"

section \<open>HandleRegistry: the \<^verbatim>\<open>fl_XXX_offscreen\<close> functions\<close>

text \<open>
  \<^verbatim>\<open>realloc\<close> to \<open>n\<close> cells keeps the cells there are and adds cells that are not yet
  written.
\<close>

definition realloc :: "'a cell list \<Rightarrow> int \<Rightarrow> 'a cell list" where
  "realloc xs n = take (nat n) xs @ replicate (nat n - length xs) Uninit"

text \<open>
  The loop of \<^verbatim>\<open>find_slot\<close>:
  \<^verbatim>\<open>for (int num = 0; num < count_offscreens; num++) if (!offscreen_api_surface[num]) return num;\<close>
  The result is the slot found, if any.
\<close>

function find_slot_loop :: "int \<Rightarrow> world \<Rightarrow> int option option" where
  "find_slot_loop num wld =
     (if num < count_offscreens wld then
        do { s \<leftarrow> rd_cell (offscreen_api_surface wld) num;
             case s of
               None \<Rightarrow> Some (Some num)
             | Some p \<Rightarrow> find_slot_loop (num + 1) wld }
      else Some None)"
  by pat_completeness auto
termination
  by (relation "measure (\<lambda>(num, wld). nat (count_offscreens wld - num))") auto

text \<open>
  \<^verbatim>\<open>find_slot\<close>, after the loop:
  \<^verbatim>\<open>if (count_offscreens >= max) { max += 20; offscreen_api_surface = realloc(...); }
  return count_offscreens++;\<close>
\<close>

definition find_slot :: "world \<Rightarrow> (int \<times> world) option" where
  "find_slot wld =
     do { found \<leftarrow> find_slot_loop 0 wld;
          case found of
            Some num \<Rightarrow> Some (num, wld)
          | None \<Rightarrow>
              (let w1 = (if count_offscreens wld \<ge> max_offscreens wld
                         then wld\<lparr>max_offscreens := max_offscreens wld + 20,
                                  offscreen_api_surface :=
                                    realloc (offscreen_api_surface wld) (max_offscreens wld + 20)\<rparr>
                         else wld)
               in Some (count_offscreens w1, w1\<lparr>count_offscreens := count_offscreens w1 + 1\<rparr>)) }"

text \<open>
  \<^verbatim>\<open>fl_create_offscreen\<close>:
  \<^verbatim>\<open>int rank = find_slot();
  offscreen_api_surface[rank] = new Fl_Image_Surface(w, h, 1);
  return offscreen_api_surface[rank]->offscreen();\<close>
\<close>

definition fl_create_offscreen :: "int \<Rightarrow> int \<Rightarrow> world \<Rightarrow> (Fl_Offscreen \<times> world) option" where
  "fl_create_offscreen w h wld =
     do { (rank, w1) \<leftarrow> find_slot wld;
          (s, w2) \<leftarrow> Fl_Image_Surface_new w h 1 0 w1;
          arr \<leftarrow> wr (offscreen_api_surface w2) rank (Val (Some s));
          let w3 = w2\<lparr>offscreen_api_surface := arr\<rparr>;
          sp \<leftarrow> rd_cell (offscreen_api_surface w3) rank;
          p \<leftarrow> sp;
          off \<leftarrow> Fl_Image_Surface_offscreen p w3;
          Some (off, w3) }"

text \<open>
  The test of the three lookup loops:
  \<^verbatim>\<open>offscreen_api_surface[i] && offscreen_api_surface[i]->offscreen() == ctx\<close>
\<close>

definition slot_owns :: "int \<Rightarrow> Fl_Offscreen \<Rightarrow> world \<Rightarrow> bool option" where
  "slot_owns i ctx wld =
     do { s \<leftarrow> rd_cell (offscreen_api_surface wld) i;
          case s of
            None \<Rightarrow> Some False
          | Some p \<Rightarrow> map_option (\<lambda>off. off = ctx) (Fl_Image_Surface_offscreen p wld) }"

text \<open>
  \<^verbatim>\<open>fl_delete_offscreen\<close>: \<^verbatim>\<open>if (!ctx) return;\<close> and the loop with the body
  \<^verbatim>\<open>delete offscreen_api_surface[i]; offscreen_api_surface[i] = NULL; return;\<close>
\<close>

function fl_delete_offscreen_loop :: "Fl_Offscreen \<Rightarrow> int \<Rightarrow> world \<Rightarrow> world option" where
  "fl_delete_offscreen_loop ctx i wld =
     (if i < count_offscreens wld then
        do { hit \<leftarrow> slot_owns i ctx wld;
             if hit then
               do { sp \<leftarrow> rd_cell (offscreen_api_surface wld) i;
                    p \<leftarrow> sp;
                    w1 \<leftarrow> Fl_Image_Surface_delete p wld;
                    arr \<leftarrow> wr (offscreen_api_surface w1) i (Val None);
                    Some (w1\<lparr>offscreen_api_surface := arr\<rparr>) }
             else fl_delete_offscreen_loop ctx (i + 1) wld }
      else Some wld)"
  by pat_completeness auto
termination
  by (relation "measure (\<lambda>(ctx, i, wld). nat (count_offscreens wld - i))") auto

definition fl_delete_offscreen :: "Fl_Offscreen \<Rightarrow> world \<Rightarrow> world option" where
  "fl_delete_offscreen ctx wld =
     (if ctx = 0 then Some wld else fl_delete_offscreen_loop ctx 0 wld)"

text \<open>
  \<^verbatim>\<open>fl_begin_offscreen\<close>: the loop with the body
  \<^verbatim>\<open>Fl_Surface_Device::push_current(offscreen_api_surface[i]); return;\<close>
\<close>

function fl_begin_offscreen_loop :: "Fl_Offscreen \<Rightarrow> int \<Rightarrow> world \<Rightarrow> world option" where
  "fl_begin_offscreen_loop ctx i wld =
     (if i < count_offscreens wld then
        do { hit \<leftarrow> slot_owns i ctx wld;
             if hit then
               do { sp \<leftarrow> rd_cell (offscreen_api_surface wld) i;
                    push_current (map_option Surface_Device sp) wld }
             else fl_begin_offscreen_loop ctx (i + 1) wld }
      else Some wld)"
  by pat_completeness auto
termination
  by (relation "measure (\<lambda>(ctx, i, wld). nat (count_offscreens wld - i))") auto

definition fl_begin_offscreen :: "Fl_Offscreen \<Rightarrow> world \<Rightarrow> world option" where
  "fl_begin_offscreen ctx wld = fl_begin_offscreen_loop ctx 0 wld"

text \<open>\<^verbatim>\<open>fl_end_offscreen\<close>: \<^verbatim>\<open>Fl_Surface_Device::pop_current();\<close>\<close>

definition fl_end_offscreen :: "world \<Rightarrow> world option" where
  "fl_end_offscreen wld = pop_current wld"

text \<open>
  \<^verbatim>\<open>fl_rescale_offscreen(Fl_Offscreen &ctx)\<close>: the loop that stops at the first slot that
  owns \<open>ctx\<close> and leaves its index in \<open>i\<close>, then
  \<^verbatim>\<open>if (i >= count_offscreens) return; offscreen_api_surface[i]->rescale();
  ctx = offscreen_api_surface[i]->offscreen();\<close>
  The result is the value of \<open>ctx\<close> on return, and the state.
\<close>

function fl_rescale_offscreen_loop :: "Fl_Offscreen \<Rightarrow> int \<Rightarrow> world \<Rightarrow> int option" where
  "fl_rescale_offscreen_loop ctx i wld =
     (if i < count_offscreens wld then
        do { hit \<leftarrow> slot_owns i ctx wld;
             if hit then Some i
             else fl_rescale_offscreen_loop ctx (i + 1) wld }
      else Some i)"
  by pat_completeness auto
termination
  by (relation "measure (\<lambda>(ctx, i, wld). nat (count_offscreens wld - i))") auto

definition fl_rescale_offscreen ::
  "(Fl_RGB_Image \<Rightarrow> int \<Rightarrow> int \<Rightarrow> pixel_buffer \<Rightarrow> pixel_buffer) \<Rightarrow> Fl_Offscreen \<Rightarrow> world
     \<Rightarrow> (Fl_Offscreen \<times> world) option" where
  "fl_rescale_offscreen draw ctx wld =
     do { i \<leftarrow> fl_rescale_offscreen_loop ctx 0 wld;
          if i \<ge> count_offscreens wld then Some (ctx, wld)
          else
            do { sp \<leftarrow> rd_cell (offscreen_api_surface wld) i;
                 p \<leftarrow> sp;
                 w1 \<leftarrow> rescale draw p wld;
                 sp' \<leftarrow> rd_cell (offscreen_api_surface w1) i;
                 p' \<leftarrow> sp';
                 off \<leftarrow> Fl_Image_Surface_offscreen p' w1;
                 Some (off, w1) } }"

text \<open>
  What every sequence of creations and deletions keeps true of the registry: the slots in
  use are within the capacity, the array has \<open>max_offscreens\<close> cells, and every slot in
  use has been written. The states such sequences reach from the initial one are
  \<open>registry_reachable\<close>.
\<close>

definition registry_ok :: "world \<Rightarrow> bool" where
  "registry_ok wld =
     (0 \<le> count_offscreens wld \<and> count_offscreens wld \<le> max_offscreens wld
      \<and> int (length (offscreen_api_surface wld)) = max_offscreens wld
      \<and> list_all (\<lambda>c. c \<noteq> Uninit) (take (nat (count_offscreens wld)) (offscreen_api_surface wld)))"

inductive registry_reachable :: "world \<Rightarrow> bool" where
  start: "registry_reachable (initial_world s)"
| create: "registry_reachable wld \<Longrightarrow> fl_create_offscreen w h wld = Some (off, wld')
             \<Longrightarrow> registry_reachable wld'"
| delete: "registry_reachable wld \<Longrightarrow> fl_delete_offscreen ctx wld = Some wld'
             \<Longrightarrow> registry_reachable wld'"

section \<open>Example states\<close>

text \<open>
  A rendering backend for the examples: it paints every byte of the buffer with 1. The
  state \<open>hires_world\<close> is the one \<open>fl_create_offscreen 10 5\<close> makes of the initial
  state at scale factor 2, and \<open>rescaled_world\<close> the one \<open>rescale\<close> makes of it after the
  scale factor has changed to \<open>3 / 2\<close>.
\<close>

definition example_draw :: "Fl_RGB_Image \<Rightarrow> int \<Rightarrow> int \<Rightarrow> pixel_buffer \<Rightarrow> pixel_buffer" where
  "example_draw img x y buf = buf\<lparr>buf_pixels := replicate (length (buf_pixels buf)) 1\<rparr>"

definition hires_world :: world where
  "hires_world =
     \<lparr>surfaces = [Some \<lparr>platform_surface = Some 0\<rparr>],
      drivers = [Some \<lparr>width = 10, height = 5, offscreen = 1, image_surface = Some 0,
                       external_offscreen = False\<rparr>],
      images = [],
      offscreens = [Some \<lparr>buf_w = 20, buf_h = 10, buf_pixels = replicate 600 0\<rparr>],
      current_surface = Display_Device, surface_stack = [], screen_scale = 2,
      offscreen_api_surface = Val (Some 0) # replicate 19 Uninit,
      count_offscreens = 1, max_offscreens = 20\<rparr>"

definition rescaled_world :: world where
  "rescaled_world =
     \<lparr>surfaces = [Some \<lparr>platform_surface = Some 1\<rparr>],
      drivers = [None, Some \<lparr>width = 10, height = 5, offscreen = 2, image_surface = None,
                             external_offscreen = False\<rparr>],
      images = [None],
      offscreens = [None, Some \<lparr>buf_w = 15, buf_h = 8, buf_pixels = replicate 360 1\<rparr>],
      current_surface = Display_Device, surface_stack = [], screen_scale = 3 / 2,
      offscreen_api_surface = Val (Some 0) # replicate 19 Uninit,
      count_offscreens = 1, max_offscreens = 20\<rparr>"

text \<open>
  Three surfaces created at scale factor 2 (\<open>three_world\<close>), the second one deleted
  (\<open>deleted_world\<close>), and a fourth one created (\<open>reused_world\<close>); and a surface without a
  driver.
\<close>

definition three_world :: world where
  "three_world =
     \<lparr>surfaces = [Some \<lparr>platform_surface = Some 0\<rparr>, Some \<lparr>platform_surface = Some 1\<rparr>,
                  Some \<lparr>platform_surface = Some 2\<rparr>],
      drivers = [Some \<lparr>width = 10, height = 5, offscreen = 1, image_surface = Some 0,
                       external_offscreen = False\<rparr>,
                 Some \<lparr>width = 3, height = 3, offscreen = 2, image_surface = Some 1,
                       external_offscreen = False\<rparr>,
                 Some \<lparr>width = 4, height = 4, offscreen = 3, image_surface = Some 2,
                       external_offscreen = False\<rparr>],
      images = [],
      offscreens = [Some (blank_buffer 20 10), Some (blank_buffer 6 6), Some (blank_buffer 8 8)],
      current_surface = Display_Device, surface_stack = [], screen_scale = 2,
      offscreen_api_surface = [Val (Some 0), Val (Some 1), Val (Some 2)] @ replicate 17 Uninit,
      count_offscreens = 3, max_offscreens = 20\<rparr>"

definition deleted_world :: world where
  "deleted_world =
     three_world\<lparr>surfaces := [Some \<lparr>platform_surface = Some 0\<rparr>, None,
                               Some \<lparr>platform_surface = Some 2\<rparr>],
                  drivers := [Some \<lparr>width = 10, height = 5, offscreen = 1, image_surface = Some 0,
                                    external_offscreen = False\<rparr>,
                              None,
                              Some \<lparr>width = 4, height = 4, offscreen = 3, image_surface = Some 2,
                                    external_offscreen = False\<rparr>],
                  offscreens := [Some (blank_buffer 20 10), None, Some (blank_buffer 8 8)],
                  offscreen_api_surface := [Val (Some 0), Val None, Val (Some 2)] @ replicate 17 Uninit\<rparr>"

definition reused_world :: world where
  "reused_world =
     deleted_world\<lparr>surfaces := [Some \<lparr>platform_surface = Some 0\<rparr>, None,
                                 Some \<lparr>platform_surface = Some 2\<rparr>,
                                 Some \<lparr>platform_surface = Some 3\<rparr>],
                    drivers := [Some \<lparr>width = 10, height = 5, offscreen = 1, image_surface = Some 0,
                                      external_offscreen = False\<rparr>,
                                None,
                                Some \<lparr>width = 4, height = 4, offscreen = 3, image_surface = Some 2,
                                      external_offscreen = False\<rparr>,
                                Some \<lparr>width = 7, height = 7, offscreen = 4, image_surface = Some 3,
                                      external_offscreen = False\<rparr>],
                    offscreens := [Some (blank_buffer 20 10), None, Some (blank_buffer 8 8),
                                   Some (blank_buffer 14 14)],
                    offscreen_api_surface := [Val (Some 0), Val (Some 3), Val (Some 2)] @ replicate 17 Uninit\<rparr>"

definition null_driver_world :: world where
  "null_driver_world = (initial_world 1)\<lparr>surfaces := [Some \<lparr>platform_surface = None\<rparr>]\<rparr>"

section \<open>Properties of the compositor\<close>

declare copy_with_mask_row.simps [simp del]
declare copy_with_mask_rows.simps [simp del]

lemma uchar_range: "0 \<le> uint (x :: uchar)" "uint (x :: uchar) \<le> 255"
  using uint_lt2p[of x] by simp_all

lemma sdiv_nonneg: "0 \<le> (x::int) \<Longrightarrow> 0 < y \<Longrightarrow> x sdiv y = x div y"
  by (simp add: signed_divide_int_def sgn_if)

lemma uint_of_int_uchar: "0 \<le> k \<Longrightarrow> k < 256 \<Longrightarrow> uint (word_of_int k :: uchar) = k"
  by (simp add: uint_word_of_int)

lemma uint_complement: "uint (word_of_int (255 - uint (u :: uchar)) :: uchar) = 255 - uint u"
proof -
  have "0 \<le> 255 - uint u" "255 - uint u < 256" using uchar_range[of u] by linarith+
  then show ?thesis by (rule uint_of_int_uchar)
qed

lemma weighted_sum_range:
  fixes b f a :: int
  assumes "0 \<le> b" "b \<le> 255" "0 \<le> f" "f \<le> 255" "0 \<le> a" "a \<le> 255"
  shows "0 \<le> b * (255 - a) + f * a" "b * (255 - a) + f * a \<le> 255 * 255"
proof -
  show "0 \<le> b * (255 - a) + f * a" using assms by simp
  have "b * (255 - a) \<le> 255 * (255 - a)" using assms by (intro mult_right_mono) auto
  moreover have "f * a \<le> 255 * a" using assms by (intro mult_right_mono) auto
  ultimately show "b * (255 - a) + f * a \<le> 255 * 255" by arith
qed

lemma uint_blend:
  "uint (blend d s u) = (uint d * (255 - uint u) + uint s * uint u) sdiv 255"
proof -
  define x where "x = uint d * (255 - uint u) + uint s * uint u"
  have r: "0 \<le> x" "x \<le> 255 * 255"
    unfolding x_def using weighted_sum_range[OF uchar_range uchar_range uchar_range] by auto
  then have q: "0 \<le> x div 255" "x div 255 < 256" by auto
  have "uint (blend d s u) = uint (word_of_int (x sdiv 255) :: uchar)"
    by (simp only: blend_def mix_def uint_complement x_def)
  also have "\<dots> = x sdiv 255"
    using q r(1) by (simp add: sdiv_nonneg uint_of_int_uchar)
  finally show ?thesis by (simp add: x_def)
qed

lemma blend_alpha_0: "blend d s 0 = d"
proof -
  have "uint (blend d s 0) = uint d"
    using uchar_range[of d] by (simp add: uint_blend sdiv_nonneg)
  then show ?thesis by (simp only: word_uint_eq_iff)
qed

lemma blend_alpha_255: "blend d s 255 = s"
proof -
  have "uint (blend d s 255) = uint s"
    using uchar_range[of s] by (simp add: uint_blend sdiv_nonneg)
  then show ?thesis by (simp only: word_uint_eq_iff)
qed

lemma mix_channel_ok:
  assumes "0 \<le> dp" "dp < int (length dst)" "0 \<le> sp" "sp < int (length src)"
  shows "mix_channel src u v (dst, dp, sp) =
           Some (dst[nat dp := mix (dst ! nat dp) (src ! nat sp) u v], dp + 1, sp + 1)"
  using assms by (simp add: mix_channel_def rd_def wr_def)

lemma pixel_ok:
  assumes "0 \<le> dp" "dp + 3 \<le> int (length dst)" "0 \<le> sp" "sp + 3 \<le> int (length src)"
  shows "do { st1 \<leftarrow> mix_channel src u v (dst, dp, sp);
              st2 \<leftarrow> mix_channel src u v st1;
              mix_channel src u v st2 } =
         Some (dst[nat dp := mix (dst ! nat dp) (src ! nat sp) u v,
                   nat (dp + 1) := mix (dst ! nat (dp + 1)) (src ! nat (sp + 1)) u v,
                   nat (dp + 2) := mix (dst ! nat (dp + 2)) (src ! nat (sp + 2)) u v],
               dp + 3, sp + 3)"
proof -
  have n1: "nat (dp + 1) \<noteq> nat dp" "nat (dp + 2) \<noteq> nat dp" "nat (dp + 2) \<noteq> nat (dp + 1)"
    using assms by linarith+
  show ?thesis
    using assms n1 by (simp add: mix_channel_ok add.commute)
qed

lemma copy_with_mask_row_spec:
  assumes "0 \<le> ap" "ap + (w - j) \<le> int (length mask_arr)"
    and "0 \<le> dp" "dp + 3 * (w - j) \<le> int (length dst)"
    and "0 \<le> sp" "sp + 3 * (w - j) \<le> int (length src)"
  shows "\<exists>dst'. copy_with_mask_row mask_arr src w j ap (dst, dp, sp) = Some dst'
           \<and> length dst' = length dst
           \<and> (\<forall>n c. 0 \<le> n \<and> n < w - j \<and> 0 \<le> c \<and> c < 3 \<longrightarrow>
                 dst' ! nat (dp + 3 * n + c) =
                   blend (dst ! nat (dp + 3 * n + c)) (src ! nat (sp + 3 * n + c))
                         (mask_arr ! nat (ap + n)))
           \<and> (\<forall>k. int k < dp \<or> dp + 3 * (w - j) \<le> int k \<longrightarrow> dst' ! k = dst ! k)"
  using assms
proof (induction mask_arr src w j ap "(dst, dp, sp)" arbitrary: dst dp sp rule: copy_with_mask_row.induct)
  case (1 mask_arr src w j ap)
  show ?case
  proof (cases "j < w")
    case False
    then show ?thesis
      by (auto simp: copy_with_mask_row.simps)
  next
    case True
    define u where "u = mask_arr ! nat ap"
    define v :: uchar where "v = 255 - u"
    define dst3 where "dst3 = dst[nat dp := mix (dst ! nat dp) (src ! nat sp) u v,
                   nat (dp + 1) := mix (dst ! nat (dp + 1)) (src ! nat (sp + 1)) u v,
                   nat (dp + 2) := mix (dst ! nat (dp + 2)) (src ! nat (sp + 2)) u v]"
    have rdu: "rd mask_arr ap = Some u"
      using True "1.prems" by (simp add: rd_def u_def)
    have px: "do { st1 \<leftarrow> mix_channel src u v (dst, dp, sp);
              st2 \<leftarrow> mix_channel src u v st1;
              mix_channel src u v st2 } = Some (dst3, dp + 3, sp + 3)"
      unfolding dst3_def using True "1.prems" by (intro pixel_ok) auto
    have len3: "length dst3 = length dst" by (simp add: dst3_def)
    have unfold: "copy_with_mask_row mask_arr src w j ap (dst, dp, sp) =
        copy_with_mask_row mask_arr src w (j + 1) (ap + 1) (dst3, dp + 3, sp + 3)"
    proof -
      obtain st1 st2 where s1: "mix_channel src u v (dst, dp, sp) = Some st1"
        and s2: "mix_channel src u v st1 = Some st2"
        and s3: "mix_channel src u v st2 = Some (dst3, dp + 3, sp + 3)"
        using px by (auto simp: bind_eq_Some_conv)
      show ?thesis
        using s1 s2 s3 unfolding v_def
        by (subst copy_with_mask_row.simps) (simp add: True rdu)
    qed
    have IH: "\<exists>dst'. copy_with_mask_row mask_arr src w (j + 1) (ap + 1) (dst3, dp + 3, sp + 3) = Some dst'
           \<and> length dst' = length dst3
           \<and> (\<forall>n c. 0 \<le> n \<and> n < w - (j + 1) \<and> 0 \<le> c \<and> c < 3 \<longrightarrow>
                 dst' ! nat (dp + 3 + 3 * n + c) =
                   blend (dst3 ! nat (dp + 3 + 3 * n + c)) (src ! nat (sp + 3 + 3 * n + c))
                         (mask_arr ! nat (ap + 1 + n)))
           \<and> (\<forall>k. int k < dp + 3 \<or> dp + 3 + 3 * (w - (j + 1)) \<le> int k \<longrightarrow> dst' ! k = dst3 ! k)"
    proof -
      obtain st1 st2 where s1: "mix_channel src u (word_of_int (255 - uint u)) (dst, dp, sp) = Some st1"
        and s2: "mix_channel src u (word_of_int (255 - uint u)) st1 = Some st2"
        and s3: "mix_channel src u (word_of_int (255 - uint u)) st2 = Some (dst3, dp + 3, sp + 3)"
        using px by (auto simp: bind_eq_Some_conv v_def)
      show ?thesis
        using True "1.prems" len3
        by (intro "1.hyps"[OF True rdu s1 s2 s3]) auto
    qed
    then obtain dst' where r: "copy_with_mask_row mask_arr src w (j + 1) (ap + 1) (dst3, dp + 3, sp + 3) = Some dst'"
      and l: "length dst' = length dst3"
      and px': "\<And>n c. 0 \<le> n \<Longrightarrow> n < w - (j + 1) \<Longrightarrow> 0 \<le> c \<Longrightarrow> c < 3 \<Longrightarrow>
                 dst' ! nat (dp + 3 + 3 * n + c) =
                   blend (dst3 ! nat (dp + 3 + 3 * n + c)) (src ! nat (sp + 3 + 3 * n + c))
                         (mask_arr ! nat (ap + 1 + n))"
      and fr: "\<And>k. int k < dp + 3 \<or> dp + 3 + 3 * (w - (j + 1)) \<le> int k \<Longrightarrow> dst' ! k = dst3 ! k"
      by blast
    have dst3_far: "dst3 ! k = dst ! k" if "int k < dp \<or> dp + 3 \<le> int k" for k
    proof -
      have "k \<noteq> nat dp" "k \<noteq> nat (dp + 1)" "k \<noteq> nat (dp + 2)"
        using that "1.prems"(3) by linarith+
      then show ?thesis unfolding dst3_def by simp
    qed
    have dst3_near: "dst3 ! nat (dp + c) = blend (dst ! nat (dp + c)) (src ! nat (sp + c)) u"
      if "0 \<le> c" "c < 3" for c
    proof -
      have b: "dp + 3 \<le> int (length dst)"
        using True "1.prems"(4) by arith
      have e: "nat (dp + 1) = Suc (nat dp)" "nat (dp + 2) = Suc (Suc (nat dp))"
        using "1.prems"(3) by linarith+
      have lt: "Suc (Suc (nat dp)) < length dst"
        using b "1.prems"(3) by linarith
      have c0: "dst3 ! nat dp = mix (dst ! nat dp) (src ! nat sp) u v"
        unfolding dst3_def e using lt by simp
      have c1: "dst3 ! nat (dp + 1) = mix (dst ! nat (dp + 1)) (src ! nat (sp + 1)) u v"
        unfolding dst3_def e using lt by simp
      have c2: "dst3 ! nat (dp + 2) = mix (dst ! nat (dp + 2)) (src ! nat (sp + 2)) u v"
        unfolding dst3_def e using lt by simp
      have "c = 0 \<or> c = 1 \<or> c = 2" using that by linarith
      then show ?thesis
        using c0 c1 c2 unfolding blend_def v_def by (elim disjE) simp_all
    qed
    have goal_px: "dst' ! nat (dp + 3 * n + c) =
                   blend (dst ! nat (dp + 3 * n + c)) (src ! nat (sp + 3 * n + c))
                         (mask_arr ! nat (ap + n))"
      if "0 \<le> n" "n < w - j" "0 \<le> c" "c < 3" for n c
    proof (cases "n = 0")
      case True
      have "dst' ! nat (dp + c) = dst3 ! nat (dp + c)"
        using that "1.prems"(3) by (intro fr) auto
      then show ?thesis using True dst3_near[OF that(3,4)] by (simp add: u_def)
    next
      case False
      then have m: "0 \<le> n - 1" "n - 1 < w - (j + 1)" using that by auto
      have "dst3 ! nat (dp + 3 + 3 * (n - 1) + c) = dst ! nat (dp + 3 + 3 * (n - 1) + c)"
        using m that "1.prems"(3) by (intro dst3_far) auto
      with px'[OF m that(3,4)] show ?thesis
        by (simp add: algebra_simps)
    qed
    have goal_fr: "dst' ! k = dst ! k" if "int k < dp \<or> dp + 3 * (w - j) \<le> int k" for k
    proof -
      have "dst' ! k = dst3 ! k" using that True by (intro fr) auto
      also have "\<dots> = dst ! k" using that True by (intro dst3_far) auto
      finally show ?thesis .
    qed
    show ?thesis
      unfolding unfold using r l len3 goal_px goal_fr by auto
  qed
qed

lemma row_offset_bounds:
  fixes r h c :: int
  assumes "0 \<le> r" "r < h" "0 \<le> c"
  shows "0 \<le> r * c" "r * c + c \<le> h * c"
proof -
  show "0 \<le> r * c" using assms by simp
  have "(r + 1) * c \<le> h * c"
    using assms by (intro mult_right_mono) auto
  then show "r * c + c \<le> h * c" by (simp add: algebra_simps)
qed

lemma c_int_in_range: "0 \<le> x \<Longrightarrow> x \<le> 2147483647 \<Longrightarrow> c_int x = Some x"
  by (simp add: c_int_def)

lemma copy_with_mask_rows_spec:
  assumes "0 \<le> i" "0 \<le> w" "3 * w \<le> ls"
    and "h * w \<le> int (length mask_arr)"
    and "h * ls \<le> int (length dst)" "h * ls \<le> int (length src)"
    and "h * ls \<le> 2147483647"
  shows "\<exists>dst'. copy_with_mask_rows mask_arr src ls btt w h i dst = Some dst'
           \<and> length dst' = length dst
           \<and> (\<forall>r n c. i \<le> r \<and> r < h \<and> 0 \<le> n \<and> n < w \<and> 0 \<le> c \<and> c < 3 \<longrightarrow>
                 dst' ! nat (r * ls + 3 * n + c) =
                   blend (dst ! nat (r * ls + 3 * n + c)) (src ! nat (r * ls + 3 * n + c))
                         (mask_arr ! nat ((if btt then h - r - 1 else r) * w + n)))
           \<and> (\<forall>k. (\<forall>r. i \<le> r \<and> r < h \<longrightarrow> int k < r * ls \<or> r * ls + 3 * w \<le> int k)
                 \<longrightarrow> dst' ! k = dst ! k)"
  using assms
proof (induction mask_arr src ls btt w h i dst rule: copy_with_mask_rows.induct)
  case (1 mask_arr src ls btt w h i dst)
  show ?case
  proof (cases "i < h")
    case False
    then show ?thesis
      by (auto simp: copy_with_mask_rows.simps)
  next
    case True
    define ar where "ar = (if btt then h - i - 1 else i)"
    have ar: "0 \<le> ar" "ar < h" using True "1.prems"(1) by (auto simp: ar_def)
    have ls0: "0 \<le> ls" using "1.prems"(2,3) by linarith
    have a1: "0 \<le> ar * w" "ar * w + w \<le> h * w"
      using row_offset_bounds[OF ar "1.prems"(2)] by auto
    have d1: "0 \<le> i * ls" "i * ls + ls \<le> h * ls"
      using row_offset_bounds[OF "1.prems"(1) True ls0] by auto
    have pre0: "ar * w + w \<le> int (length mask_arr)"
      "i * ls + 3 * w \<le> int (length dst)" "i * ls + 3 * w \<le> int (length src)"
      using a1 d1 "1.prems" by linarith+
    have pre: "0 \<le> ar * w" "ar * w + (w - 0) \<le> int (length mask_arr)"
      "0 \<le> i * ls" "i * ls + 3 * (w - 0) \<le> int (length dst)"
      "0 \<le> i * ls" "i * ls + 3 * (w - 0) \<le> int (length src)"
      using a1(1) d1(1) pre0 by simp_all
    obtain dst1 where r1: "copy_with_mask_row mask_arr src w 0 (ar * w) (dst, i * ls, i * ls) = Some dst1"
      and l1: "length dst1 = length dst"
      and px1: "\<And>n c. 0 \<le> n \<Longrightarrow> n < w \<Longrightarrow> 0 \<le> c \<Longrightarrow> c < 3 \<Longrightarrow>
                 dst1 ! nat (i * ls + 3 * n + c) =
                   blend (dst ! nat (i * ls + 3 * n + c)) (src ! nat (i * ls + 3 * n + c))
                         (mask_arr ! nat (ar * w + n))"
      and fr1: "\<And>k. int k < i * ls \<or> i * ls + 3 * w \<le> int k \<Longrightarrow> dst1 ! k = dst ! k"
      using copy_with_mask_row_spec[OF pre] by auto
    have hw: "h * w \<le> h * ls"
      using True "1.prems"(1,2,3) by (intro mult_left_mono) auto
    have "ar * w \<le> 2147483647"
      using a1 hw "1.prems"(2,7) by linarith
    then have "c_int (ar * w) = Some (ar * w)"
      using a1(1) by (intro c_int_in_range)
    then have ca: "c_int ((if btt then h - i - 1 else i) * w) = Some (ar * w)"
      unfolding ar_def .
    have co: "c_int (i * ls) = Some (i * ls)"
      using d1 ls0 "1.prems"(7) by (intro c_int_in_range) auto
    have unfold: "copy_with_mask_rows mask_arr src ls btt w h i dst =
                  copy_with_mask_rows mask_arr src ls btt w h (i + 1) dst1"
      by (subst copy_with_mask_rows.simps) (simp only: True ca co r1 if_True bind.bind_lunit)
    have "\<exists>dst'. copy_with_mask_rows mask_arr src ls btt w h (i + 1) dst1 = Some dst'
           \<and> length dst' = length dst1
           \<and> (\<forall>r n c. i + 1 \<le> r \<and> r < h \<and> 0 \<le> n \<and> n < w \<and> 0 \<le> c \<and> c < 3 \<longrightarrow>
                 dst' ! nat (r * ls + 3 * n + c) =
                   blend (dst1 ! nat (r * ls + 3 * n + c)) (src ! nat (r * ls + 3 * n + c))
                         (mask_arr ! nat ((if btt then h - r - 1 else r) * w + n)))
           \<and> (\<forall>k. (\<forall>r. i + 1 \<le> r \<and> r < h \<longrightarrow> int k < r * ls \<or> r * ls + 3 * w \<le> int k)
                 \<longrightarrow> dst' ! k = dst1 ! k)"
      using "1.prems" l1 by (intro "1.IH"[OF True ca co r1]) auto
    then obtain dst' where r: "copy_with_mask_rows mask_arr src ls btt w h (i + 1) dst1 = Some dst'"
      and l: "length dst' = length dst1"
      and px: "\<And>r n c. i + 1 \<le> r \<Longrightarrow> r < h \<Longrightarrow> 0 \<le> n \<Longrightarrow> n < w \<Longrightarrow> 0 \<le> c \<Longrightarrow> c < 3 \<Longrightarrow>
                 dst' ! nat (r * ls + 3 * n + c) =
                   blend (dst1 ! nat (r * ls + 3 * n + c)) (src ! nat (r * ls + 3 * n + c))
                         (mask_arr ! nat ((if btt then h - r - 1 else r) * w + n))"
      and fr: "\<And>k. (\<forall>r. i + 1 \<le> r \<and> r < h \<longrightarrow> int k < r * ls \<or> r * ls + 3 * w \<le> int k)
                 \<Longrightarrow> dst' ! k = dst1 ! k"
      by blast
    have later: "i * ls + ls \<le> r * ls" if "i + 1 \<le> r" for r
    proof -
      have "(i + 1) * ls \<le> r * ls" using that ls0 by (intro mult_right_mono) auto
      then show ?thesis by (simp add: algebra_simps)
    qed
    have goal_px: "dst' ! nat (r * ls + 3 * n + c) =
                   blend (dst ! nat (r * ls + 3 * n + c)) (src ! nat (r * ls + 3 * n + c))
                         (mask_arr ! nat ((if btt then h - r - 1 else r) * w + n))"
      if "i \<le> r" "r < h" "0 \<le> n" "n < w" "0 \<le> c" "c < 3" for r n c
    proof (cases "r = i")
      case True
      have idx: "0 \<le> i * ls + 3 * n + c" "i * ls + 3 * n + c < i * ls + 3 * w"
        using that d1(1) by linarith+
      have "dst' ! nat (i * ls + 3 * n + c) = dst1 ! nat (i * ls + 3 * n + c)"
      proof (rule fr, intro allI impI)
        fix r' assume "i + 1 \<le> r' \<and> r' < h"
        then have "i * ls + ls \<le> r' * ls" using later by auto
        then show "int (nat (i * ls + 3 * n + c)) < r' * ls \<or> r' * ls + 3 * w \<le> int (nat (i * ls + 3 * n + c))"
          using idx "1.prems"(3) by linarith
      qed
      then show ?thesis using px1[OF that(3-6)] True by (simp add: ar_def)
    next
      case False
      then have ri: "i + 1 \<le> r" using that by linarith
      have "i * ls + ls \<le> r * ls" using later[OF ri] .
      then have "i * ls + 3 * w \<le> int (nat (r * ls + 3 * n + c))"
        using that "1.prems"(3) d1(1) by linarith
      then have "dst1 ! nat (r * ls + 3 * n + c) = dst ! nat (r * ls + 3 * n + c)"
        by (intro fr1) auto
      with px[OF ri that(2-6)] show ?thesis by simp
    qed
    have goal_fr: "dst' ! k = dst ! k"
      if "\<forall>r. i \<le> r \<and> r < h \<longrightarrow> int k < r * ls \<or> r * ls + 3 * w \<le> int k" for k
    proof -
      have "dst' ! k = dst1 ! k" using that by (intro fr) auto
      also have "\<dots> = dst ! k" using that True by (intro fr1) auto
      finally show ?thesis .
    qed
    show ?thesis
      unfolding unfold using r l l1 goal_px goal_fr by auto
  qed
qed

lemma concat_uniform:
  assumes "\<forall>ys \<in> set xss. length ys = w"
  shows "length (concat xss) = length xss * w"
    and "r < length xss \<Longrightarrow> n < w \<Longrightarrow> concat xss ! (r * w + n) = xss ! r ! n"
  using assms
proof (induction xss arbitrary: r)
  case Nil
  { case 1 show ?case by simp }
  { case 2 then show ?case by simp }
next
  case (Cons ys xss)
  { case 1 then show ?case using Cons.IH(1) by simp }
  { case 2
    show ?case
    proof (cases r)
      case 0
      then show ?thesis using 2 by (simp add: nth_append)
    next
      case (Suc r')
      have "concat xss ! (r' * w + n) = xss ! r' ! n"
        using 2 Suc by (intro Cons.IH(2)) auto
      moreover have "length ys = w" using 2 by simp
      ultimately show ?thesis using Suc by (simp add: nth_append)
    qed }
qed

lemma mask_rows_props:
  assumes "h * w \<le> length xs"
  shows "length (mask_rows w h xs) = h"
    and "\<forall>ys \<in> set (rev (mask_rows w h xs)). length ys = w"
    and "r < h \<Longrightarrow> n < w \<Longrightarrow> mask_rows w h xs ! r ! n = xs ! (r * w + n)"
proof -
  show "length (mask_rows w h xs) = h" by (simp add: mask_rows_def)
  have le: "r * w + w \<le> length xs" if "r < h" for r
  proof -
    have "Suc r * w \<le> h * w" using that by (intro mult_le_mono1) simp
    then show ?thesis using assms by simp
  qed
  show "\<forall>ys \<in> set (rev (mask_rows w h xs)). length ys = w"
  proof
    fix ys assume "ys \<in> set (rev (mask_rows w h xs))"
    then obtain r where r: "r < h" "ys = take w (drop (r * w) xs)"
      by (auto simp: mask_rows_def)
    show "length ys = w" using le[OF r(1)] r(2) by simp
  qed
  show "mask_rows w h xs ! r ! n = xs ! (r * w + n)" if "r < h" "n < w"
    using that le[OF that(1)] by (simp add: mask_rows_def)
qed

lemma reverse_rows_props:
  assumes "h * w \<le> length xs"
  shows "length (reverse_rows w h xs) = h * w"
    and "r < h \<Longrightarrow> n < w \<Longrightarrow> reverse_rows w h xs ! (r * w + n) = xs ! ((h - Suc r) * w + n)"
proof -
  note p = mask_rows_props[OF assms]
  show "length (reverse_rows w h xs) = h * w"
    unfolding reverse_rows_def using concat_uniform(1)[OF p(2)] p(1) by simp
  show "reverse_rows w h xs ! (r * w + n) = xs ! ((h - Suc r) * w + n)" if "r < h" "n < w"
  proof -
    have "reverse_rows w h xs ! (r * w + n) = rev (mask_rows w h xs) ! r ! n"
      unfolding reverse_rows_def using that p(1) by (intro concat_uniform(2)[OF p(2)]) auto
    also have "\<dots> = mask_rows w h xs ! (h - Suc r) ! n"
      using that p(1) by (simp add: rev_nth)
    also have "\<dots> = xs ! ((h - Suc r) * w + n)"
      using that by (intro p(3)) auto
    finally show ?thesis .
  qed
qed

lemma copy_with_mask_row_alpha_cong:
  assumes "\<forall>n. 0 \<le> n \<and> n < w - j \<longrightarrow> rd m1 (a1 + n) = rd m2 (a2 + n)"
  shows "copy_with_mask_row m1 src w j a1 st = copy_with_mask_row m2 src w j a2 st"
  using assms
proof (induction m1 src w j a1 st arbitrary: a2 rule: copy_with_mask_row.induct)
  case (1 m1 src w j a1 st)
  show ?case
  proof (cases "j < w")
    case False
    then show ?thesis by (simp add: copy_with_mask_row.simps)
  next
    case True
    have r0: "rd m1 a1 = rd m2 a2" using "1.prems"[rule_format, of 0] True by simp
    have nxt: "\<forall>n. 0 \<le> n \<and> n < w - (j + 1) \<longrightarrow> rd m1 (a1 + 1 + n) = rd m2 (a2 + 1 + n)"
    proof (intro allI impI)
      fix n assume "0 \<le> n \<and> n < w - (j + 1)"
      then have "0 \<le> 1 + n \<and> 1 + n < w - j" by auto
      then show "rd m1 (a1 + 1 + n) = rd m2 (a2 + 1 + n)"
        using "1.prems"[rule_format, of "1 + n"] by (simp add: add.assoc)
    qed
    show ?thesis
    proof (cases "rd m1 a1")
      case None
      then show ?thesis using r0 True
        by (simp add: copy_with_mask_row.simps[of m1 src w j a1] copy_with_mask_row.simps[of m2 src w j a2])
    next
      case (Some u)
      have rd1: "rd m1 a1 = Some u" by (fact Some)
      have rd2: "rd m2 a2 = Some u" using r0 Some by simp
      let ?v = "word_of_int (255 - uint u) :: uchar"
      show ?thesis
      proof (cases "mix_channel src u ?v st")
        case None
        then show ?thesis using True rd1 rd2
          by (simp add: copy_with_mask_row.simps[of m1 src w j a1] copy_with_mask_row.simps[of m2 src w j a2])
      next
        case s1: (Some st1)
        show ?thesis
        proof (cases "mix_channel src u ?v st1")
          case None
          then show ?thesis using True rd1 rd2 s1
            by (simp add: copy_with_mask_row.simps[of m1 src w j a1] copy_with_mask_row.simps[of m2 src w j a2])
        next
          case s2: (Some st2)
          show ?thesis
          proof (cases "mix_channel src u ?v st2")
            case None
            then show ?thesis using True rd1 rd2 s1 s2
              by (simp add: copy_with_mask_row.simps[of m1 src w j a1] copy_with_mask_row.simps[of m2 src w j a2])
          next
            case s3: (Some st3)
            have "copy_with_mask_row m1 src w (j + 1) (a1 + 1) st3 = copy_with_mask_row m2 src w (j + 1) (a2 + 1) st3"
              using "1.IH"[OF True Some s1 s2 s3 nxt] .
            then show ?thesis using True rd1 rd2 s1 s2 s3
              by (simp add: copy_with_mask_row.simps[of m1 src w j a1] copy_with_mask_row.simps[of m2 src w j a2])
          qed
        qed
      qed
    qed
  qed
qed

lemma rd_nat: "k < length xs \<Longrightarrow> rd xs (int k) = Some (xs ! k)"
  by (simp add: rd_def)

lemma flipped_row_reads:
  assumes "0 \<le> i" "i < h" "0 \<le> w" "0 \<le> n" "n < w" "h * w \<le> int (length m)"
  shows "rd m ((h - i - 1) * w + n) = rd (reverse_rows (nat w) (nat h) m) (i * w + n)"
proof -
  obtain I H W N where nat_eqs: "i = int I" "h = int H" "w = int W" "n = int N"
    using assms by (metis nonneg_int_cases order_less_imp_le order.trans)
  have lt: "I < H" "N < W" using assms nat_eqs by auto
  have len: "H * W \<le> length m"
    using assms(6) unfolding nat_eqs by (metis of_nat_mult of_nat_le_iff)
  obtain K where K: "H = Suc (I + K)"
    using lt(1) less_imp_Suc_add by blast
  have flip_le: "(H - Suc I) * W + N < H * W"
    using lt(2) unfolding K by (simp add: algebra_simps)
  have row_le: "I * W + N < H * W"
    using lt(2) unfolding K by (simp add: algebra_simps)
  have p1: "(h - i - 1) * w + n = int ((H - Suc I) * W + N)"
    unfolding nat_eqs K by simp
  have p2: "i * w + n = int (I * W + N)"
    unfolding nat_eqs by simp
  note rp = reverse_rows_props[OF len]
  have "rd m ((h - i - 1) * w + n) = Some (m ! ((H - Suc I) * W + N))"
  proof -
    have "(H - Suc I) * W + N < length m" using flip_le len by linarith
    then show ?thesis unfolding p1 by (rule rd_nat)
  qed
  moreover have "rd (reverse_rows (nat w) (nat h) m) (i * w + n) = Some (reverse_rows W H m ! (I * W + N))"
  proof -
    have "I * W + N < length (reverse_rows W H m)" using row_le rp(1) by linarith
    then have "rd (reverse_rows W H m) (int (I * W + N)) = Some (reverse_rows W H m ! (I * W + N))"
      by (rule rd_nat)
    then show ?thesis unfolding p2 by (simp add: nat_eqs)
  qed
  ultimately show ?thesis using rp(2)[OF lt] by simp
qed

lemma copy_with_mask_rows_flip:
  assumes "0 \<le> i" "0 \<le> w" "h * w \<le> int (length m)" "h * w \<le> 2147483647"
  shows "copy_with_mask_rows m src ls True w h i dst =
         copy_with_mask_rows (reverse_rows (nat w) (nat h) m) src ls False w h i dst"
  using assms
proof (induction m src ls True w h i dst rule: copy_with_mask_rows.induct)
  case (1 m src ls w h i dst)
  let ?m' = "reverse_rows (nat w) (nat h) m"
  show ?case
  proof (cases "i < h")
    case False
    then show ?thesis by (simp add: copy_with_mask_rows.simps)
  next
    case True
    have f: "0 \<le> h - i - 1" "h - i - 1 < h" using True "1.prems"(1) by auto
    have a1: "0 \<le> (h - i - 1) * w" "(h - i - 1) * w + w \<le> h * w"
      using row_offset_bounds[OF f "1.prems"(2)] by auto
    have a2: "0 \<le> i * w" "i * w + w \<le> h * w"
      using row_offset_bounds[OF "1.prems"(1) True "1.prems"(2)] by auto
    have cb1: "c_int ((h - i - 1) * w) = Some ((h - i - 1) * w)"
      using a1 "1.prems"(2,4) by (intro c_int_in_range) linarith+
    have cb2: "c_int (i * w) = Some (i * w)"
      using a2 "1.prems"(2,4) by (intro c_int_in_range) linarith+
    have ca1: "c_int ((if True then h - i - 1 else i) * w) = Some ((h - i - 1) * w)"
      using cb1 by simp
    have row: "copy_with_mask_row m src w 0 ((h - i - 1) * w) (dst, off, off) =
               copy_with_mask_row ?m' src w 0 (i * w) (dst, off, off)" for off
      using flipped_row_reads[OF "1.prems"(1) True "1.prems"(2) _ _ "1.prems"(3)]
      by (intro copy_with_mask_row_alpha_cong) simp
    show ?thesis
    proof (cases "c_int (i * ls)")
      case None
      then show ?thesis using True
        by (simp add: copy_with_mask_rows.simps[of m src ls True w h i]
                      copy_with_mask_rows.simps[of ?m' src ls False w h i] cb1 cb2)
    next
      case co: (Some off)
      show ?thesis
      proof (cases "copy_with_mask_row m src w 0 ((h - i - 1) * w) (dst, off, off)")
        case None
        then have "copy_with_mask_row ?m' src w 0 (i * w) (dst, off, off) = None"
          using row by simp
        then show ?thesis using True None co
          by (simp add: copy_with_mask_rows.simps[of m src ls True w h i]
                        copy_with_mask_rows.simps[of ?m' src ls False w h i] cb1 cb2)
      next
        case (Some dst1)
        have "copy_with_mask_rows m src ls True w h (i + 1) dst1 =
              copy_with_mask_rows ?m' src ls False w h (i + 1) dst1"
          using "1.prems" by (intro "1.hyps"[OF True ca1 co Some]) auto
        moreover have "copy_with_mask_row ?m' src w 0 (i * w) (dst, off, off) = Some dst1"
          using row Some by simp
        ultimately show ?thesis using True Some co
          by (simp add: copy_with_mask_rows.simps[of m src ls True w h i]
                        copy_with_mask_rows.simps[of ?m' src ls False w h i] cb1 cb2)
      qed
    qed
  qed
qed

section \<open>Properties of the luminance reducer\<close>

declare RGB3_to_RGB1_row.simps [simp del]
declare RGB3_to_RGB1_rows.simps [simp del]

lemma uint_lum: "uint (lum a0 a1 a2) = (uint a0 + uint a1 + uint a2) div 3"
proof -
  define x where "x = uint a0 + uint a1 + uint a2"
  have r: "0 \<le> x" "x \<le> 765"
    unfolding x_def using uchar_range[of a0] uchar_range[of a1] uchar_range[of a2] by linarith+
  then have q: "0 \<le> x div 3" "x div 3 < 256" by auto
  have "uint (lum a0 a1 a2) = uint (word_of_int (x sdiv 3) :: uchar)"
    by (simp only: lum_def x_def)
  also have "\<dots> = x div 3"
    using q r(1) by (simp add: sdiv_nonneg uint_of_int_uchar)
  finally show ?thesis by (simp add: x_def)
qed

lemma RGB3_to_RGB1_row_spec:
  assumes "0 \<le> al" "al + 3 * (W - j) \<le> int (length arr)"
    and "0 \<le> snd st" "snd st + (W - j) \<le> int (length (fst st))"
  shows "\<exists>data'. RGB3_to_RGB1_row arr W j al st = Some (data', snd st + max 0 (W - j))
           \<and> length data' = length (fst st)
           \<and> (\<forall>n. 0 \<le> n \<and> n < W - j \<longrightarrow>
                 data' ! nat (snd st + n) =
                   lum (arr ! nat (al + 3 * n)) (arr ! nat (al + 3 * n + 1)) (arr ! nat (al + 3 * n + 2)))
           \<and> (\<forall>k. int k < snd st \<or> snd st + (W - j) \<le> int k \<longrightarrow> data' ! k = fst st ! k)"
  using assms
proof (induction arr W j al st rule: RGB3_to_RGB1_row.induct)
  case (1 arr W j al st)
  obtain data p where st: "st = (data, p)" by (cases st)
  note prems = "1.prems"[unfolded st fst_conv snd_conv]
  show ?case
  proof (cases "j < W")
    case False
    then show ?thesis
      by (auto simp: RGB3_to_RGB1_row.simps st)
  next
    case True
    have b: "al + 3 \<le> int (length arr)" "p + 1 \<le> int (length data)"
      using True prems by arith+
    define v where "v = lum (arr ! nat al) (arr ! nat (al + 1)) (arr ! nat (al + 2))"
    define data1 where "data1 = data[nat p := v]"
    have r0: "rd arr al = Some (arr ! nat al)"
      and r1: "rd arr (al + 1) = Some (arr ! nat (al + 1))"
      and r2: "rd arr (al + 2) = Some (arr ! nat (al + 2))"
      using b(1) prems(1) by (simp_all add: rd_def)
    have w0: "wr (fst st) (snd st) (word_of_int ((uint (arr ! nat al) + uint (arr ! nat (al + 1))
                 + uint (arr ! nat (al + 2))) sdiv 3)) = Some data1"
      using b(2) prems(3) by (simp add: wr_def data1_def v_def lum_def st)
    have len1: "length data1 = length data" by (simp add: data1_def)
    have unfold: "RGB3_to_RGB1_row arr W j al st =
                  RGB3_to_RGB1_row arr W (j + 1) (al + 3) (data1, snd st + 1)"
      by (subst RGB3_to_RGB1_row.simps) (simp only: True if_True r0 r1 r2 w0 bind.bind_lunit)
    have IH: "\<exists>data'. RGB3_to_RGB1_row arr W (j + 1) (al + 3) (data1, snd st + 1)
                 = Some (data', snd (data1, snd st + 1) + max 0 (W - (j + 1)))
           \<and> length data' = length (fst (data1, snd st + 1))
           \<and> (\<forall>n. 0 \<le> n \<and> n < W - (j + 1) \<longrightarrow>
                 data' ! nat (snd (data1, snd st + 1) + n) =
                   lum (arr ! nat (al + 3 + 3 * n)) (arr ! nat (al + 3 + 3 * n + 1)) (arr ! nat (al + 3 + 3 * n + 2)))
           \<and> (\<forall>k. int k < snd (data1, snd st + 1) \<or> snd (data1, snd st + 1) + (W - (j + 1)) \<le> int k
                 \<longrightarrow> data' ! k = fst (data1, snd st + 1) ! k)"
    proof (rule "1.IH"[OF True r0 r1 r2 w0])
      show "0 \<le> al + 3" using prems(1) by simp
      show "al + 3 + 3 * (W - (j + 1)) \<le> int (length arr)" using prems(2) by (simp add: algebra_simps)
      show "0 \<le> snd (data1, snd st + 1)" using prems(3) by (simp add: st)
      show "snd (data1, snd st + 1) + (W - (j + 1)) \<le> int (length (fst (data1, snd st + 1)))"
        using prems(4) len1 by (simp add: st)
    qed
    then obtain data' where r: "RGB3_to_RGB1_row arr W (j + 1) (al + 3) (data1, snd st + 1)
                                  = Some (data', p + 1 + max 0 (W - (j + 1)))"
      and l: "length data' = length data1"
      and px': "\<And>n. 0 \<le> n \<Longrightarrow> n < W - (j + 1) \<Longrightarrow>
                 data' ! nat (p + 1 + n) =
                   lum (arr ! nat (al + 3 + 3 * n)) (arr ! nat (al + 3 + 3 * n + 1)) (arr ! nat (al + 3 + 3 * n + 2))"
      and fr: "\<And>k. int k < p + 1 \<or> p + 1 + (W - (j + 1)) \<le> int k \<Longrightarrow> data' ! k = data1 ! k"
      unfolding st fst_conv snd_conv by blast
    have goal_px: "data' ! nat (p + n) =
                   lum (arr ! nat (al + 3 * n)) (arr ! nat (al + 3 * n + 1)) (arr ! nat (al + 3 * n + 2))"
      if "0 \<le> n" "n < W - j" for n
    proof (cases "n = 0")
      case True
      have "data' ! nat p = data1 ! nat p"
        using prems(3) by (intro fr) auto
      also have "\<dots> = v" using b(2) prems(3) by (simp add: data1_def)
      finally show ?thesis using True by (simp add: v_def)
    next
      case False
      then have m: "0 \<le> n - 1" "n - 1 < W - (j + 1)" using that by auto
      show ?thesis using px'[OF m] by (simp add: algebra_simps)
    qed
    have goal_fr: "data' ! k = data ! k" if "int k < p \<or> p + (W - j) \<le> int k" for k
    proof -
      have "data' ! k = data1 ! k" using that True by (intro fr) auto
      also have "\<dots> = data ! k"
      proof -
        have "k \<noteq> nat p" using that True prems(3) by linarith
        then show ?thesis by (simp add: data1_def)
      qed
      finally show ?thesis .
    qed
    have fin: "p + 1 + max 0 (W - (j + 1)) = p + max 0 (W - j)" using True by simp
    show ?thesis
      unfolding unfold using r l len1 goal_px goal_fr fin by (auto simp: st)
  qed
qed

lemma RGB3_to_RGB1_rows_spec:
  assumes "0 \<le> W" "0 \<le> i" "snd st = i * W" "H * W \<le> int (length (fst st))"
    and "\<forall>r. i \<le> r \<and> r < H \<longrightarrow> 0 \<le> r * ld \<and> r * ld + 3 * W \<le> int (length arr)
                                    \<and> r * ld \<le> 2147483647"
  shows "\<exists>data'. RGB3_to_RGB1_rows arr ld W H i st = Some (data', max i H * W)
           \<and> length data' = length (fst st)
           \<and> (\<forall>r n. i \<le> r \<and> r < H \<and> 0 \<le> n \<and> n < W \<longrightarrow>
                 data' ! nat (r * W + n) =
                   lum (arr ! nat (r * ld + 3 * n)) (arr ! nat (r * ld + 3 * n + 1))
                       (arr ! nat (r * ld + 3 * n + 2)))
           \<and> (\<forall>k. int k < i * W \<longrightarrow> data' ! k = fst st ! k)"
  using assms
proof (induction arr ld W H i st rule: RGB3_to_RGB1_rows.induct)
  case (1 arr ld W H i st)
  show ?case
  proof (cases "i < H")
    case False
    then show ?thesis
      using "1.prems"(3) by (cases st) (auto simp: RGB3_to_RGB1_rows.simps max_def)
  next
    case True
    have src: "0 \<le> i * ld" "i * ld + 3 * W \<le> int (length arr)" "i * ld \<le> 2147483647"
      using "1.prems"(5) True by auto
    have co: "c_int (i * ld) = Some (i * ld)"
      using src(1,3) by (rule c_int_in_range)
    have d1: "0 \<le> i * W" "i * W + W \<le> H * W"
      using row_offset_bounds[OF "1.prems"(2) True "1.prems"(1)] by auto
    have pre: "0 \<le> i * ld" "i * ld + 3 * (W - 0) \<le> int (length arr)"
      "0 \<le> snd st" "snd st + (W - 0) \<le> int (length (fst st))"
      using src(1,2) d1 "1.prems"(3,4) by simp_all
    obtain data1 where r1: "RGB3_to_RGB1_row arr W 0 (i * ld) st = Some (data1, (i + 1) * W)"
      and l1: "length data1 = length (fst st)"
      and px1: "\<And>n. 0 \<le> n \<Longrightarrow> n < W \<Longrightarrow>
                 data1 ! nat (i * W + n) =
                   lum (arr ! nat (i * ld + 3 * n)) (arr ! nat (i * ld + 3 * n + 1))
                       (arr ! nat (i * ld + 3 * n + 2))"
      and fr1: "\<And>k. int k < i * W \<Longrightarrow> data1 ! k = fst st ! k"
    proof -
      from RGB3_to_RGB1_row_spec[OF pre] obtain data1 where
        a: "RGB3_to_RGB1_row arr W 0 (i * ld) st = Some (data1, snd st + max 0 (W - 0))"
        and b: "length data1 = length (fst st)"
        and c: "\<forall>n. 0 \<le> n \<and> n < W - 0 \<longrightarrow>
                 data1 ! nat (snd st + n) =
                   lum (arr ! nat (i * ld + 3 * n)) (arr ! nat (i * ld + 3 * n + 1))
                       (arr ! nat (i * ld + 3 * n + 2))"
        and d: "\<forall>k. int k < snd st \<or> snd st + (W - 0) \<le> int k \<longrightarrow> data1 ! k = fst st ! k"
        by blast
      have e: "snd st + max 0 (W - 0) = (i + 1) * W"
        using "1.prems"(1,3) by (simp add: algebra_simps)
      show thesis
      proof (rule that[of data1])
        show "RGB3_to_RGB1_row arr W 0 (i * ld) st = Some (data1, (i + 1) * W)" using a e by simp
        show "length data1 = length (fst st)" by (fact b)
        show "data1 ! nat (i * W + n) =
                   lum (arr ! nat (i * ld + 3 * n)) (arr ! nat (i * ld + 3 * n + 1))
                       (arr ! nat (i * ld + 3 * n + 2))" if "0 \<le> n" "n < W" for n
          using c[rule_format, of n] that "1.prems"(3) by simp
        show "data1 ! k = fst st ! k" if "int k < i * W" for k
          using d[rule_format, of k] that "1.prems"(3) by simp
      qed
    qed
    have unfold: "RGB3_to_RGB1_rows arr ld W H i st =
                  RGB3_to_RGB1_rows arr ld W H (i + 1) (data1, (i + 1) * W)"
      by (subst RGB3_to_RGB1_rows.simps) (simp only: True co r1 if_True bind.bind_lunit)
    have IH: "\<exists>data'. RGB3_to_RGB1_rows arr ld W H (i + 1) (data1, (i + 1) * W)
                  = Some (data', max (i + 1) H * W)
           \<and> length data' = length (fst (data1, (i + 1) * W))
           \<and> (\<forall>r n. i + 1 \<le> r \<and> r < H \<and> 0 \<le> n \<and> n < W \<longrightarrow>
                 data' ! nat (r * W + n) =
                   lum (arr ! nat (r * ld + 3 * n)) (arr ! nat (r * ld + 3 * n + 1))
                       (arr ! nat (r * ld + 3 * n + 2)))
           \<and> (\<forall>k. int k < (i + 1) * W \<longrightarrow> data' ! k = fst (data1, (i + 1) * W) ! k)"
    proof (rule "1.IH"[OF True co r1])
      show "0 \<le> W" by (fact "1.prems"(1))
      show "0 \<le> i + 1" using "1.prems"(2) by simp
      show "snd (data1, (i + 1) * W) = (i + 1) * W" by simp
      show "H * W \<le> int (length (fst (data1, (i + 1) * W)))" using "1.prems"(4) l1 by simp
      show "\<forall>r. i + 1 \<le> r \<and> r < H \<longrightarrow> 0 \<le> r * ld \<and> r * ld + 3 * W \<le> int (length arr)
                                    \<and> r * ld \<le> 2147483647"
        using "1.prems"(5) by auto
    qed
    then obtain data' where r: "RGB3_to_RGB1_rows arr ld W H (i + 1) (data1, (i + 1) * W)
                  = Some (data', max (i + 1) H * W)"
      and l: "length data' = length data1"
      and px: "\<And>r n. i + 1 \<le> r \<Longrightarrow> r < H \<Longrightarrow> 0 \<le> n \<Longrightarrow> n < W \<Longrightarrow>
                 data' ! nat (r * W + n) =
                   lum (arr ! nat (r * ld + 3 * n)) (arr ! nat (r * ld + 3 * n + 1))
                       (arr ! nat (r * ld + 3 * n + 2))"
      and fr: "\<And>k. int k < (i + 1) * W \<Longrightarrow> data' ! k = data1 ! k"
      unfolding fst_conv by blast
    have goal_px: "data' ! nat (r * W + n) =
                   lum (arr ! nat (r * ld + 3 * n)) (arr ! nat (r * ld + 3 * n + 1))
                       (arr ! nat (r * ld + 3 * n + 2))"
      if "i \<le> r" "r < H" "0 \<le> n" "n < W" for r n
    proof (cases "r = i")
      case True
      have "int (nat (i * W + n)) < (i + 1) * W"
        using that d1(1) by (simp add: algebra_simps)
      then have "data' ! nat (i * W + n) = data1 ! nat (i * W + n)" by (rule fr)
      then show ?thesis using px1[OF that(3,4)] True by simp
    next
      case False
      then have "i + 1 \<le> r" using that by linarith
      then show ?thesis using that by (intro px)
    qed
    have goal_fr: "data' ! k = fst st ! k" if "int k < i * W" for k
    proof -
      have "int k < (i + 1) * W" using that "1.prems"(1) by (simp add: algebra_simps)
      then have "data' ! k = data1 ! k" by (rule fr)
      then show ?thesis using fr1[OF that] by simp
    qed
    have fin: "max (i + 1) H = max i H" using True by simp
    show ?thesis
      unfolding unfold using r l l1 goal_px goal_fr fin by auto
  qed
qed

lemma heap_get_append:
  "heap_get (hp @ xs) p = (if p < length hp then heap_get hp p
                            else if p - length hp < length xs then xs ! (p - length hp) else None)"
  by (auto simp: heap_get_def nth_append)

lemma heap_delete_last_but_one:
  "heap_delete (hp @ [Some c, Some out]) (length hp) = Some (hp @ [None, Some out])"
  by (simp add: heap_delete_def heap_get_def nth_append list_update_append)

lemma RGB3_to_RGB1_shape:
  assumes "RGB3_to_RGB1 copy_image hp rgb3 W H = Some (rgb1, hp')"
  shows "\<exists>img0 out. heap_get hp rgb3 = Some img0 \<and>
           (if W \<noteq> data_w img0 \<or> H \<noteq> data_h img0
            then rgb1 = length hp + 1 \<and> hp' = hp @ [None, Some out]
            else rgb1 = length hp \<and> hp' = hp @ [Some out])"
proof -
  obtain img0 where g: "heap_get hp rgb3 = Some img0"
    using assms by (auto simp: RGB3_to_RGB1_def bind_eq_Some_conv)
  show ?thesis
  proof (cases "W \<noteq> data_w img0 \<or> H \<noteq> data_h img0")
    case True
    then obtain c data' pp where
      "hp' = hp @ [None, Some ((Fl_RGB_Image_new data' W H 1 0)\<lparr>alloc_array := 1\<rparr>)]" "rgb1 = length hp + 1"
      using assms g
      by (auto simp: RGB3_to_RGB1_def Fl_RGB_Image_copy_def bind_eq_Some_conv heap_new_def
                     heap_delete_last_but_one Let_def
               split: if_splits prod.splits)
    then show ?thesis using g True by auto
  next
    case False
    then obtain data' pp where
      "hp' = hp @ [Some ((Fl_RGB_Image_new data' W H 1 0)\<lparr>alloc_array := 1\<rparr>)]" "rgb1 = length hp"
      using assms g
      by (auto simp: RGB3_to_RGB1_def bind_eq_Some_conv heap_new_def Let_def
               split: if_splits prod.splits)
    then show ?thesis using g False by auto
  qed
qed

lemma RGB3_to_RGB1_result:
  assumes g: "heap_get hp rgb3 = Some img0"
    and c: "(if W \<noteq> data_w img0 \<or> H \<noteq> data_h img0 then copy_image img0 W H else Some img0) = Some img"
    and W: "0 \<le> W" and H: "0 \<le> H"
    and ld: "ld = (if img_ld img = 0 then 3 * W else img_ld img)"
    and b: "H \<le> 0 \<or> (0 \<le> ld \<and> (H - 1) * ld + 3 * W \<le> int (length (array img))
                       \<and> (H - 1) * ld \<le> 2147483647)"
    and r: "W * H \<le> 2147483647" "3 * W \<le> 2147483647"
  shows "\<exists>data'. RGB3_to_RGB1 copy_image hp rgb3 W H =
             Some (if W \<noteq> data_w img0 \<or> H \<noteq> data_h img0
                   then (length hp + 1, hp @ [None, Some ((Fl_RGB_Image_new data' W H 1 0)\<lparr>alloc_array := 1\<rparr>)])
                   else (length hp, hp @ [Some ((Fl_RGB_Image_new data' W H 1 0)\<lparr>alloc_array := 1\<rparr>)]))
           \<and> length data' = nat (W * H)
           \<and> (\<forall>i j. 0 \<le> i \<and> i < H \<and> 0 \<le> j \<and> j < W \<longrightarrow>
                 data' ! nat (i * W + j) =
                   lum (array img ! nat (i * ld + 3 * j)) (array img ! nat (i * ld + 3 * j + 1))
                       (array img ! nat (i * ld + 3 * j + 2)))"
proof -
  have rows: "\<forall>r. 0 \<le> r \<and> r < H \<longrightarrow> 0 \<le> r * ld \<and> r * ld + 3 * W \<le> int (length (array img))
                                    \<and> r * ld \<le> 2147483647"
  proof (intro allI impI)
    fix r assume r: "0 \<le> r \<and> r < H"
    then have l: "0 \<le> ld" "(H - 1) * ld + 3 * W \<le> int (length (array img))"
      "(H - 1) * ld \<le> 2147483647" using b by auto
    have "r * ld \<le> (H - 1) * ld" using r l(1) by (intro mult_right_mono) auto
    then show "0 \<le> r * ld \<and> r * ld + 3 * W \<le> int (length (array img)) \<and> r * ld \<le> 2147483647"
      using r l by auto
  qed
  have WH: "0 \<le> W * H" using W H by simp
  have st: "snd (replicate (nat (W * H)) (0::uchar), 0::int) = 0 * W"
    "H * W \<le> int (length (fst (replicate (nat (W * H)) (0::uchar), 0::int)))"
    using WH by (simp_all add: mult.commute)
  obtain data' where rw: "RGB3_to_RGB1_rows (array img) ld W H 0 (replicate (nat (W * H)) 0, 0) = Some (data', max 0 H * W)"
    and l: "length data' = nat (W * H)"
    and px: "\<forall>r n. 0 \<le> r \<and> r < H \<and> 0 \<le> n \<and> n < W \<longrightarrow>
                 data' ! nat (r * W + n) =
                   lum (array img ! nat (r * ld + 3 * n)) (array img ! nat (r * ld + 3 * n + 1))
                       (array img ! nat (r * ld + 3 * n + 2))"
    using RGB3_to_RGB1_rows_spec[OF W order_refl st rows] by auto
  have cn: "c_int (W * H) = Some (W * H)"
    using WH r(1) by (rule c_int_in_range)
  have na: "new_uchar_array (W * H) = Some (replicate (nat (W * H)) 0)"
    using WH by (simp add: new_uchar_array_def)
  have "c_int (3 * W) = Some (3 * W)"
    using W r(2) by (intro c_int_in_range) auto
  then have cl: "(if img_ld img = 0 then c_int (3 * W) else Some (img_ld img)) = Some ld"
    using ld by simp
  note r' = rw
  have "RGB3_to_RGB1 copy_image hp rgb3 W H =
             Some (if W \<noteq> data_w img0 \<or> H \<noteq> data_h img0
                   then (length hp + 1, hp @ [None, Some ((Fl_RGB_Image_new data' W H 1 0)\<lparr>alloc_array := 1\<rparr>)])
                   else (length hp, hp @ [Some ((Fl_RGB_Image_new data' W H 1 0)\<lparr>alloc_array := 1\<rparr>)]))"
  proof (cases "W \<noteq> data_w img0 \<or> H \<noteq> data_h img0")
    case True
    then have ci: "copy_image img0 W H = Some img" using c by simp
    have g1: "heap_get (hp @ [Some img]) (length hp) = Some img"
      by (simp add: heap_get_def)
    have nc: "(W \<noteq> data_w img0 \<or> H \<noteq> data_h img0) = True" using True by simp
    have nc': "(W = data_w img0 \<longrightarrow> H \<noteq> data_h img0)" using True by auto
    have "RGB3_to_RGB1 copy_image hp rgb3 W H =
            Some (length hp + 1, hp @ [None, Some ((Fl_RGB_Image_new data' W H 1 0)\<lparr>alloc_array := 1\<rparr>)])"
      unfolding RGB3_to_RGB1_def
      using nc' by (simp add: g ci Fl_RGB_Image_copy_def heap_new_def cn na g1 cl r' Let_def heap_delete_last_but_one del: One_nat_def)
    then show ?thesis by (simp only: nc if_True)
  next
    case False
    then have ci: "img0 = img" using c by simp
    have nc: "(W \<noteq> data_w img \<or> H \<noteq> data_h img) = False" using False ci by simp
    have "RGB3_to_RGB1 copy_image hp rgb3 W H =
            Some (length hp, hp @ [Some ((Fl_RGB_Image_new data' W H 1 0)\<lparr>alloc_array := 1\<rparr>)])"
      unfolding RGB3_to_RGB1_def
      using False[unfolded ci] r' na cn cl by (simp add: g[unfolded ci] heap_new_def Let_def)
    then show ?thesis by (simp only: ci nc if_False)
  qed
  then show ?thesis using l px by blast
qed

section \<open>Properties of the surface operations\<close>

lemma heap_get_new [simp]: "heap_get (hp @ [Some x]) (length hp) = Some x"
  by (simp add: heap_get_def)

lemma heap_get_old: "p < length hp \<Longrightarrow> heap_get (hp @ xs) p = heap_get hp p"
  by (simp add: heap_get_def nth_append)

lemma heap_get_lt: "heap_get hp p = Some x \<Longrightarrow> p < length hp"
  by (auto simp: heap_get_def split: if_splits)

lemma heap_set_Some: "heap_get hp p = Some x \<Longrightarrow> heap_set hp p y = Some (hp[p := Some y])"
  by (simp add: heap_set_def)

lemma heap_delete_Some: "heap_get hp p = Some x \<Longrightarrow> heap_delete hp p = Some (hp[p := None])"
  by (simp add: heap_delete_def)

lemma heap_get_update:
  "heap_get (hp[p := v]) q = (if q = p \<and> p < length hp then v else heap_get hp q)"
  by (auto simp: heap_get_def)

lemma offscreen_get_cong: "offscreens w1 = offscreens w2 \<Longrightarrow> offscreen_get w1 off = offscreen_get w2 off"
  by (simp add: offscreen_get_def)

lemma set_current_live:
  assumes "device_live wld dev"
  shows "set_current dev wld = Some (wld\<lparr>current_surface := dev\<rparr>)"
  using assms by (cases dev) (auto simp: device_live_def driver_set_current_def)

lemma driver_image_result:
  assumes "heap_get (drivers wld) p = Some drv" "offscreen_get wld (offscreen drv) = Some buf"
  shows "driver_image (Some p) wld =
           Some (length (images wld), wld\<lparr>images := images wld @ [Some (snapshot buf)]\<rparr>)"
  using assms by (simp add: driver_image_def heap_new_def snapshot_def)

lemma Fl_Image_Surface_image_states_result:
  assumes s: "heap_get (surfaces wld) this = Some surf"
    and p: "platform_surface surf = Some p"
    and d: "heap_get (drivers wld) p = Some drv"
    and b: "offscreen_get wld (offscreen drv) = Some buf"
    and c: "device_live wld (current_surface wld)"
  shows "Fl_Image_Surface_image_states this wld =
           Some (length (images wld),
                 (if current_surface wld = Driver_Device p then wld
                  else wld\<lparr>surface_stack := current_surface wld # surface_stack wld,
                           current_surface := Driver_Device p\<rparr>),
                 (if current_surface wld = Driver_Device p then wld
                  else wld\<lparr>surface_stack := current_surface wld # surface_stack wld,
                           current_surface := Driver_Device p\<rparr>)
                   \<lparr>images := images wld @ [Some (snapshot buf)]\<rparr>,
                 wld\<lparr>images := images wld @ [Some (snapshot buf)]\<rparr>,
                 wld\<lparr>images := images wld @
                    [Some ((snapshot buf)\<lparr>img_w := width drv, img_h := height drv\<rparr>)]\<rparr>)"
proof -
  let ?img = "length (images wld)"
  let ?w2 = "\<lambda>w. w\<lparr>images := images wld @ [Some (snapshot buf)]\<rparr>"
  have sc: "Fl_Image_scale ?img (width drv) (height drv) 1 1 (?w2 wld) =
              Some (wld\<lparr>images := images wld @
                    [Some ((snapshot buf)\<lparr>img_w := width drv, img_h := height drv\<rparr>)]\<rparr>)"
    by (simp add: Fl_Image_scale_def heap_set_def)
  show ?thesis
  proof (cases "current_surface wld = Driver_Device p")
    case True
    have di: "driver_image (Some p) wld = Some (?img, ?w2 wld)"
      using driver_image_result[OF d b] .
    show ?thesis
      unfolding Fl_Image_Surface_image_states_def
      using True by (simp add: s p di d sc)
  next
    case False
    let ?w1 = "wld\<lparr>surface_stack := current_surface wld # surface_stack wld,
                   current_surface := Driver_Device p\<rparr>"
    have pu: "push_current (Some (Driver_Device p)) wld = Some ?w1"
      using d by (simp add: push_current_def driver_set_current_def)
    have b1: "offscreen_get ?w1 (offscreen drv) = Some buf"
      using b offscreen_get_cong[of ?w1 wld] by simp
    have d1: "heap_get (drivers ?w1) p = Some drv"
      using d by simp
    have di: "driver_image (Some p) ?w1 = Some (?img, ?w2 ?w1)"
      using driver_image_result[OF d1 b1] by simp
    have live: "device_live ((?w2 ?w1)\<lparr>surface_stack := surface_stack wld\<rparr>) (current_surface wld)"
      using c by (simp add: device_live_def split: Fl_Surface_Device.splits)
    have po: "pop_current (?w2 ?w1) = Some (?w2 wld)"
      unfolding pop_current_def using set_current_live[OF live] by simp
    show ?thesis
      unfolding Fl_Image_Surface_image_states_def
      using False by (simp add: s p pu di po d sc)
  qed
qed

lemma Fl_Image_Surface_image_result:
  assumes s: "heap_get (surfaces wld) this = Some surf"
    and p: "platform_surface surf = Some p"
    and d: "heap_get (drivers wld) p = Some drv"
    and b: "offscreen_get wld (offscreen drv) = Some buf"
    and c: "device_live wld (current_surface wld)"
  shows "Fl_Image_Surface_image this wld =
           Some (length (images wld),
                 wld\<lparr>images := images wld @
                    [Some ((snapshot buf)\<lparr>img_w := width drv, img_h := height drv\<rparr>)]\<rparr>)"
  unfolding Fl_Image_Surface_image_def Fl_Image_Surface_image_states_result[OF assms]
  by simp

lemma Fl_Image_Surface_image_sizes:
  assumes "heap_get (surfaces wld) this = Some surf"
    and "platform_surface surf = Some p"
    and "heap_get (drivers wld) p = Some drv"
    and "offscreen_get wld (offscreen drv) = Some buf"
    and "device_live wld (current_surface wld)"
  shows "\<exists>img w' i. Fl_Image_Surface_image this wld = Some (img, w')
           \<and> heap_get (images w') img = Some i
           \<and> data_w i = buf_w buf \<and> data_h i = buf_h buf
           \<and> img_w i = width drv \<and> img_h i = height drv"
  unfolding Fl_Image_Surface_image_result[OF assms]
  by (simp add: snapshot_def Fl_RGB_Image_new_def)

lemma offscreen_get_Some:
  "offscreen_get wld off = Some buf \<Longrightarrow> off \<noteq> 0 \<and> heap_get (offscreens wld) (off - 1) = Some buf"
  by (auto simp: offscreen_get_def split: if_splits)

lemma rescale_result:
  assumes s: "heap_get (surfaces wld) this = Some surf"
    and p: "platform_surface surf = Some p"
    and d: "heap_get (drivers wld) p = Some drv"
    and b: "offscreen_get wld (offscreen drv) = Some buf"
    and c: "device_live wld (current_surface wld)"
    and n: "current_surface wld \<noteq> Driver_Device p"
  shows "rescale draw this wld =
           Some (wld\<lparr>images := images wld @ [None],
                     offscreens :=
                       (if external_offscreen drv then offscreens wld
                        else (offscreens wld)[offscreen drv - 1 := None])
                       @ [Some (draw ((snapshot buf)\<lparr>img_w := width drv, img_h := height drv\<rparr>) 0 0
                                  (blank_buffer (round (of_int (width drv) * screen_scale wld))
                                                (round (of_int (height drv) * screen_scale wld))))],
                     drivers := (drivers wld)[p := None]
                       @ [Some \<lparr>width = width drv, height = height drv,
                                 offscreen = length (offscreens wld) + 1, image_surface = None,
                                 external_offscreen = False\<rparr>],
                     surfaces := (surfaces wld)[this := Some (surf\<lparr>platform_surface := Some (length (drivers wld))\<rparr>)]\<rparr>)"
proof -
  let ?rgb = "length (images wld)"
  let ?img = "(snapshot buf)\<lparr>img_w := width drv, img_h := height drv\<rparr>"
  let ?w1 = "wld\<lparr>images := images wld @ [Some ?img]\<rparr>"
  let ?offs2 = "if external_offscreen drv then offscreens wld else (offscreens wld)[offscreen drv - 1 := None]"
  let ?drvs2 = "(drivers wld)[p := None]"
  let ?w2 = "?w1\<lparr>offscreens := ?offs2, drivers := ?drvs2\<rparr>"
  let ?blank = "blank_buffer (round (of_int (width drv) * screen_scale wld))
                             (round (of_int (height drv) * screen_scale wld))"
  let ?nd = "\<lparr>width = width drv, height = height drv,
                                 offscreen = length (offscreens wld) + 1, image_surface = None,
                                 external_offscreen = False\<rparr>"
  let ?p' = "length (drivers wld)"
  let ?w3 = "?w2\<lparr>offscreens := ?offs2 @ [Some ?blank], drivers := ?drvs2 @ [Some ?nd]\<rparr>"
  let ?ss = "(surfaces wld)[this := Some (surf\<lparr>platform_surface := Some ?p'\<rparr>)]"
  let ?w4 = "?w3\<lparr>surfaces := ?ss\<rparr>"
  let ?w5 = "?w4\<lparr>surface_stack := current_surface wld # surface_stack wld,
                   current_surface := Driver_Device ?p'\<rparr>"
  let ?w6 = "?w5\<lparr>offscreens := ?offs2 @ [Some (draw ?img 0 0 ?blank)]\<rparr>"
  let ?w7 = "?w6\<lparr>surface_stack := surface_stack wld, current_surface := current_surface wld\<rparr>"
  note ob = offscreen_get_Some[OF b]
  have lo: "length ?offs2 = length (offscreens wld)" by simp
  have s1: "Fl_Image_Surface_image this wld = Some (?rgb, ?w1)"
    by (rule Fl_Image_Surface_image_result[OF s p d b c])
  have s2: "printable_rect this ?w1 = Some (width drv, height drv)"
    by (simp add: printable_rect_def driver_printable_rect_def s p d)
  have s3: "heap_get (surfaces ?w1) this = Some surf" using s by simp
  have s4: "delete_driver (platform_surface surf) ?w1 = Some ?w2"
    using ob by (simp add: delete_driver_def p d heap_delete_def)
  have s5: "newImageSurfaceDriver (width drv) (height drv) 1 0 ?w2 = (?p', ?w3)"
    by (simp add: newImageSurfaceDriver_def heap_new_def Let_def blank_buffer_def)
  have s6: "heap_set (surfaces ?w3) this (surf\<lparr>platform_surface := Some ?p'\<rparr>) = Some ?ss"
    using s by (simp add: heap_set_def)
  have s7: "push_current (Some (Surface_Device this)) ?w4 = Some ?w5"
    using heap_get_lt[OF s]
    by (simp add: push_current_def Fl_Image_Surface_set_current_def heap_get_update
                  driver_set_current_def heap_get_append)
  have s8: "Fl_RGB_Image_draw draw ?rgb 0 0 ?w5 = Some ?w6"
    by (simp add: Fl_RGB_Image_draw_def offscreen_get_def heap_set_def heap_get_append
                  list_update_append)
  have live: "device_live (?w6\<lparr>surface_stack := surface_stack wld\<rparr>) (current_surface wld)"
    using c n heap_get_lt[OF d]
    by (auto simp: device_live_def heap_get_append heap_get_update split: Fl_Surface_Device.splits
             dest: heap_get_lt)
  have s9: "pop_current ?w6 = Some ?w7"
    unfolding pop_current_def using set_current_live[OF live] by simp
  have s10: "delete_image ?rgb ?w7 = Some (?w7\<lparr>images := images wld @ [None]\<rparr>)"
    by (simp add: delete_image_def heap_delete_def list_update_append)
  have "rescale draw this wld = Some (?w7\<lparr>images := images wld @ [None]\<rparr>)"
    unfolding rescale_def
    by (simp only: s1 s2 s3 s4 s5 s6 s7 s8 s9 s10 bind.bind_lunit prod.case Let_def)
  then show ?thesis by simp
qed

section \<open>Properties of the registry\<close>

declare find_slot_loop.simps [simp del]
declare fl_delete_offscreen_loop.simps [simp del]
declare fl_begin_offscreen_loop.simps [simp del]
declare fl_rescale_offscreen_loop.simps [simp del]

lemma fl_delete_offscreen_loop_miss:
  assumes "\<forall>j. i \<le> j \<and> j < count_offscreens wld \<longrightarrow> slot_owns j ctx wld = Some False"
  shows "fl_delete_offscreen_loop ctx i wld = Some wld"
  using assms
proof (induction ctx i wld rule: fl_delete_offscreen_loop.induct)
  case (1 ctx i wld)
  show ?case
  proof (cases "i < count_offscreens wld")
    case False
    then show ?thesis by (simp add: fl_delete_offscreen_loop.simps)
  next
    case True
    have h: "slot_owns i ctx wld = Some False" using "1.prems" True by simp
    have "fl_delete_offscreen_loop ctx (i + 1) wld = Some wld"
      using "1.prems" by (intro "1.IH"[OF True h]) auto
    then show ?thesis
      by (subst fl_delete_offscreen_loop.simps) (simp add: True h)
  qed
qed

lemma fl_begin_offscreen_loop_miss:
  assumes "\<forall>j. i \<le> j \<and> j < count_offscreens wld \<longrightarrow> slot_owns j ctx wld = Some False"
  shows "fl_begin_offscreen_loop ctx i wld = Some wld"
  using assms
proof (induction ctx i wld rule: fl_begin_offscreen_loop.induct)
  case (1 ctx i wld)
  show ?case
  proof (cases "i < count_offscreens wld")
    case False
    then show ?thesis by (simp add: fl_begin_offscreen_loop.simps)
  next
    case True
    have h: "slot_owns i ctx wld = Some False" using "1.prems" True by simp
    have "fl_begin_offscreen_loop ctx (i + 1) wld = Some wld"
      using "1.prems" by (intro "1.IH"[OF True h]) auto
    then show ?thesis
      by (subst fl_begin_offscreen_loop.simps) (simp add: True h)
  qed
qed

lemma fl_rescale_offscreen_loop_miss:
  assumes "\<forall>j. i \<le> j \<and> j < count_offscreens wld \<longrightarrow> slot_owns j ctx wld = Some False"
  shows "fl_rescale_offscreen_loop ctx i wld = Some (max i (count_offscreens wld))"
  using assms
proof (induction ctx i wld rule: fl_rescale_offscreen_loop.induct)
  case (1 ctx i wld)
  show ?case
  proof (cases "i < count_offscreens wld")
    case False
    then show ?thesis by (simp add: fl_rescale_offscreen_loop.simps)
  next
    case True
    have h: "slot_owns i ctx wld = Some False" using "1.prems" True by simp
    have "fl_rescale_offscreen_loop ctx (i + 1) wld = Some (max (i + 1) (count_offscreens wld))"
      using "1.prems" by (intro "1.IH"[OF True h]) auto
    then show ?thesis
      using True by (subst fl_rescale_offscreen_loop.simps) (simp add: h)
  qed
qed

lemma fl_delete_offscreen_loop_hit:
  assumes "i \<le> k" "k < count_offscreens wld"
    and "\<forall>j. i \<le> j \<and> j < k \<longrightarrow> slot_owns j ctx wld = Some False"
    and "slot_owns k ctx wld = Some True"
  shows "fl_delete_offscreen_loop ctx i wld =
           do { sp \<leftarrow> rd_cell (offscreen_api_surface wld) k;
                p \<leftarrow> sp;
                w1 \<leftarrow> Fl_Image_Surface_delete p wld;
                arr \<leftarrow> wr (offscreen_api_surface w1) k (Val None);
                Some (w1\<lparr>offscreen_api_surface := arr\<rparr>) }"
  using assms
proof (induction ctx i wld rule: fl_delete_offscreen_loop.induct)
  case (1 ctx i wld)
  have lt: "i < count_offscreens wld" using "1.prems" by linarith
  show ?case
  proof (cases "i = k")
    case True
    show ?thesis
      using "1.prems"(2,4) unfolding True
      by (subst fl_delete_offscreen_loop.simps) simp
  next
    case False
    then have h: "slot_owns i ctx wld = Some False" using "1.prems" by simp
    have "fl_delete_offscreen_loop ctx (i + 1) wld =
           do { sp \<leftarrow> rd_cell (offscreen_api_surface wld) k;
                p \<leftarrow> sp;
                w1 \<leftarrow> Fl_Image_Surface_delete p wld;
                arr \<leftarrow> wr (offscreen_api_surface w1) k (Val None);
                Some (w1\<lparr>offscreen_api_surface := arr\<rparr>) }"
      using "1.prems" False by (intro "1.IH"[OF lt h]) auto
    then show ?thesis
      by (subst fl_delete_offscreen_loop.simps) (simp add: lt h)
  qed
qed

lemma fl_rescale_offscreen_loop_hit:
  assumes "i \<le> k" "k < count_offscreens wld"
    and "\<forall>j. i \<le> j \<and> j < k \<longrightarrow> slot_owns j ctx wld = Some False"
    and "slot_owns k ctx wld = Some True"
  shows "fl_rescale_offscreen_loop ctx i wld = Some k"
  using assms
proof (induction ctx i wld rule: fl_rescale_offscreen_loop.induct)
  case (1 ctx i wld)
  have lt: "i < count_offscreens wld" using "1.prems" by linarith
  show ?case
  proof (cases "i = k")
    case True
    show ?thesis
      using "1.prems"(2,4) unfolding True
      by (subst fl_rescale_offscreen_loop.simps) simp
  next
    case False
    then have h: "slot_owns i ctx wld = Some False" using "1.prems" by simp
    have "fl_rescale_offscreen_loop ctx (i + 1) wld = Some k"
      using "1.prems" False by (intro "1.IH"[OF lt h]) auto
    then show ?thesis
      by (subst fl_rescale_offscreen_loop.simps) (simp add: lt h)
  qed
qed

lemma slot_owns_True:
  assumes "rd_cell (offscreen_api_surface wld) k = Some (Some p)"
    and "Fl_Image_Surface_offscreen p wld = Some ctx"
  shows "slot_owns k ctx wld = Some True"
  using assms by (simp add: slot_owns_def)

lemma Fl_Image_Surface_offscreen_live:
  assumes "heap_get (surfaces wld) this = Some surf" "platform_surface surf = Some q"
    and "heap_get (drivers wld) q = Some drv"
  shows "Fl_Image_Surface_offscreen this wld = Some (offscreen drv)"
  using assms by (simp add: Fl_Image_Surface_offscreen_def)

lemma set_current_frame:
  assumes "set_current dev wld = Some w'"
  shows "w' = wld\<lparr>current_surface := current_surface w'\<rparr>"
  using assms
  by (cases dev)
     (auto simp: driver_set_current_def Fl_Image_Surface_set_current_def bind_eq_Some_conv
           split: option.splits)

lemma pop_current_frame:
  assumes "pop_current wld = Some w'"
  shows "w' = wld\<lparr>surface_stack := surface_stack w', current_surface := current_surface w'\<rparr>"
proof (cases "surface_stack wld")
  case Nil
  then show ?thesis using assms by (simp add: pop_current_def)
next
  case (Cons dev rest)
  then have "set_current dev (wld\<lparr>surface_stack := rest\<rparr>) = Some w'"
    using assms by (simp add: pop_current_def)
  from set_current_frame[OF this] have e: "w' = wld\<lparr>surface_stack := rest, current_surface := current_surface w'\<rparr>" .
  have "surface_stack w' = rest" by (subst e) simp
  then show ?thesis using e by simp
qed

lemma Fl_Image_Surface_delete_result:
  assumes s: "heap_get (surfaces wld) p = Some surf"
    and ps: "platform_surface surf = Some q"
    and d: "heap_get (drivers wld) q = Some drv"
    and b: "external_offscreen drv \<or> offscreen drv = 0 \<or> offscreen_get wld (offscreen drv) \<noteq> None"
    and c: "current_surface wld = Driver_Device q \<longrightarrow> pop_current wld \<noteq> None"
  shows "\<exists>w1. Fl_Image_Surface_delete p wld = Some w1
           \<and> surfaces w1 = (surfaces wld)[p := None]
           \<and> drivers w1 = (drivers wld)[q := None]
           \<and> offscreens w1 = (if offscreen drv \<noteq> 0 \<and> \<not> external_offscreen drv
                               then (offscreens wld)[offscreen drv - 1 := None] else offscreens wld)
           \<and> images w1 = images wld
           \<and> offscreen_api_surface w1 = offscreen_api_surface wld
           \<and> count_offscreens w1 = count_offscreens wld
           \<and> max_offscreens w1 = max_offscreens wld
           \<and> screen_scale w1 = screen_scale wld"
proof -
  obtain w0 where e: "(if current_surface wld = Driver_Device q then end_current (Some q) wld else Some wld) = Some w0"
    and f: "w0 = wld\<lparr>surface_stack := surface_stack w0, current_surface := current_surface w0\<rparr>"
  proof (cases "current_surface wld = Driver_Device q")
    case True
    then obtain w0 where po: "pop_current wld = Some w0" using c by auto
    show ?thesis
      using that[of w0] True po pop_current_frame[OF po] by (simp add: end_current_def)
  next
    case False
    show ?thesis using that[of wld] False by simp
  qed
  have ic: "is_current p wld = Some (current_surface wld = Driver_Device q)"
    by (simp add: is_current_def s ps)
  have d0: "heap_get (drivers w0) q = Some drv" by (subst f) (simp add: d)
  have o0: "offscreens w0 = offscreens wld" by (subst f) simp
  have s0: "surfaces w0 = surfaces wld" by (subst f) simp
  have dr0: "drivers w0 = drivers wld" by (subst f) simp
  let ?bs = "if offscreen drv \<noteq> 0 \<and> \<not> external_offscreen drv
             then (offscreens wld)[offscreen drv - 1 := None] else offscreens wld"
  have bd: "(if offscreen drv \<noteq> 0 \<and> \<not> external_offscreen drv
             then heap_delete (offscreens w0) (offscreen drv - 1)
             else Some (offscreens w0)) = Some ?bs"
    using b by (auto simp: o0 offscreen_get_def heap_delete_def)
  have dd: "delete_driver (Some q) w0 = Some (w0\<lparr>offscreens := ?bs, drivers := (drivers wld)[q := None]\<rparr>)"
    unfolding delete_driver_def using d0 bd
    by (simp add: heap_delete_def dr0)
  have sd: "heap_delete (surfaces (w0\<lparr>offscreens := ?bs, drivers := (drivers wld)[q := None]\<rparr>)) p
              = Some ((surfaces wld)[p := None])"
    using s by (simp add: s0 heap_delete_def)
  have r: "Fl_Image_Surface_delete p wld =
             Some (w0\<lparr>offscreens := ?bs, drivers := (drivers wld)[q := None],
                      surfaces := (surfaces wld)[p := None]\<rparr>)"
    unfolding Fl_Image_Surface_delete_def
    by (simp only: s ic ps e dd sd bind.bind_lunit)
  have fr: "images w0 = images wld" "offscreen_api_surface w0 = offscreen_api_surface wld"
    "count_offscreens w0 = count_offscreens wld" "max_offscreens w0 = max_offscreens wld"
    "screen_scale w0 = screen_scale wld"
    by (subst f, simp)+
  show ?thesis
    unfolding r using fr by simp
qed

lemma rd_cell_range:
  assumes "rd_cell xs k = Some x"
  shows "0 \<le> k" "k < int (length xs)" "xs ! nat k = Val x"
  using assms by (auto simp: rd_cell_def rd_def split: if_splits option.splits cell.splits)

lemma rd_cell_update:
  assumes "0 \<le> k" "k < int (length xs)"
  shows "rd_cell (xs[nat k := Val v]) j = (if j = k then Some v else rd_cell xs j)"
proof (cases "j = k")
  case True
  then show ?thesis using assms by (simp add: rd_cell_def rd_def)
next
  case False
  have "0 \<le> j \<Longrightarrow> nat j \<noteq> nat k" using False assms by linarith
  then show ?thesis using False by (auto simp: rd_cell_def rd_def)
qed

lemma int_cases_3: "0 \<le> j \<Longrightarrow> j < 3 \<Longrightarrow> j = 0 \<or> j = 1 \<or> j = (2::int)"
  by linarith

lemma registry_ok_cells:
  assumes "registry_ok wld" "0 \<le> i" "i < count_offscreens wld"
  shows "\<exists>sp. rd_cell (offscreen_api_surface wld) i = Some sp"
proof -
  let ?arr = "offscreen_api_surface wld"
  have lt: "nat i < length ?arr" "nat i < nat (count_offscreens wld)"
    using assms by (auto simp: registry_ok_def)
  have "list_all (\<lambda>c. c \<noteq> Uninit) (take (nat (count_offscreens wld)) ?arr)"
    using assms(1) by (simp add: registry_ok_def)
  then have "take (nat (count_offscreens wld)) ?arr ! nat i \<noteq> Uninit"
    using lt by (simp add: list_all_length)
  then have "?arr ! nat i \<noteq> Uninit" using lt by simp
  then obtain sp where "?arr ! nat i = Val sp" by (cases "?arr ! nat i") auto
  then show ?thesis using lt assms(2) by (simp add: rd_cell_def rd_def)
qed

lemma find_slot_loop_spec:
  assumes "registry_ok wld" "0 \<le> num"
  shows "\<exists>r. find_slot_loop num wld = Some r \<and>
           (case r of
              Some k \<Rightarrow> num \<le> k \<and> k < count_offscreens wld
                        \<and> rd_cell (offscreen_api_surface wld) k = Some None
                        \<and> (\<forall>j. num \<le> j \<and> j < k \<longrightarrow> rd_cell (offscreen_api_surface wld) j \<noteq> Some None)
            | None \<Rightarrow> (\<forall>j. num \<le> j \<and> j < count_offscreens wld
                          \<longrightarrow> rd_cell (offscreen_api_surface wld) j \<noteq> Some None))"
  using assms
proof (induction num wld rule: find_slot_loop.induct)
  case (1 num wld)
  show ?case
  proof (cases "num < count_offscreens wld")
    case False
    then show ?thesis by (auto simp: find_slot_loop.simps)
  next
    case True
    obtain sp where sp: "rd_cell (offscreen_api_surface wld) num = Some sp"
      using registry_ok_cells[OF "1.prems"(1,2) True] by blast
    show ?thesis
    proof (cases sp)
      case None
      have "find_slot_loop num wld = Some (Some num)"
        by (subst find_slot_loop.simps) (simp add: True sp None)
      then show ?thesis using True sp None by auto
    next
      case (Some p)
      obtain r where r: "find_slot_loop (num + 1) wld = Some r"
        and c: "case r of
              Some k \<Rightarrow> num + 1 \<le> k \<and> k < count_offscreens wld
                        \<and> rd_cell (offscreen_api_surface wld) k = Some None
                        \<and> (\<forall>j. num + 1 \<le> j \<and> j < k \<longrightarrow> rd_cell (offscreen_api_surface wld) j \<noteq> Some None)
            | None \<Rightarrow> (\<forall>j. num + 1 \<le> j \<and> j < count_offscreens wld
                          \<longrightarrow> rd_cell (offscreen_api_surface wld) j \<noteq> Some None)"
        using "1.IH"[OF True sp Some "1.prems"(1)] "1.prems"(2) by auto
      have e: "find_slot_loop num wld = Some r"
        by (subst find_slot_loop.simps) (simp add: True sp Some r)
      have here: "rd_cell (offscreen_api_surface wld) num \<noteq> Some None"
        using sp Some by simp
      have step: "rd_cell (offscreen_api_surface wld) j \<noteq> Some None"
        if "num \<le> j" "j < b" "\<forall>j. num + 1 \<le> j \<and> j < b \<longrightarrow> rd_cell (offscreen_api_surface wld) j \<noteq> Some None"
        for j b
      proof (cases "j = num")
        case True
        then show ?thesis using here by simp
      next
        case False
        then have "num + 1 \<le> j" using that(1) by linarith
        then show ?thesis using that by blast
      qed
      show ?thesis
      proof (cases r)
        case None
        then show ?thesis using e c step by auto
      next
        case (Some k)
        then show ?thesis using e c step by auto
      qed
    qed
  qed
qed

lemma find_slot_spec:
  assumes "registry_ok wld"
  shows "\<exists>rank c' m' a'.
           find_slot wld = Some (rank, wld\<lparr>count_offscreens := c', max_offscreens := m',
                                            offscreen_api_surface := a'\<rparr>)
           \<and> 0 \<le> rank \<and> rank < int (length a') \<and> rank < c' \<and> c' \<le> m' \<and> int (length a') = m'
           \<and> count_offscreens wld \<le> c'
           \<and> (\<forall>j. 0 \<le> j \<and> j < count_offscreens wld \<longrightarrow>
                 rd_cell a' j = rd_cell (offscreen_api_surface wld) j)
           \<and> (if \<exists>k. 0 \<le> k \<and> k < count_offscreens wld
                      \<and> rd_cell (offscreen_api_surface wld) k = Some None
               then rank < count_offscreens wld
                    \<and> rd_cell (offscreen_api_surface wld) rank = Some None
                    \<and> (\<forall>j. 0 \<le> j \<and> j < rank \<longrightarrow> rd_cell (offscreen_api_surface wld) j \<noteq> Some None)
                    \<and> c' = count_offscreens wld \<and> m' = max_offscreens wld
                    \<and> a' = offscreen_api_surface wld
               else rank = count_offscreens wld \<and> c' = count_offscreens wld + 1
                    \<and> (if count_offscreens wld \<ge> max_offscreens wld
                        then m' = max_offscreens wld + 20
                             \<and> a' = offscreen_api_surface wld @ replicate 20 Uninit
                        else m' = max_offscreens wld \<and> a' = offscreen_api_surface wld))"
proof -
  let ?arr = "offscreen_api_surface wld"
  let ?c = "count_offscreens wld"
  let ?m = "max_offscreens wld"
  have ok: "0 \<le> ?c" "?c \<le> ?m" "int (length ?arr) = ?m"
    using assms by (auto simp: registry_ok_def)
  obtain r where r: "find_slot_loop 0 wld = Some r"
    and c: "case r of
              Some k \<Rightarrow> 0 \<le> k \<and> k < ?c \<and> rd_cell ?arr k = Some None
                        \<and> (\<forall>j. 0 \<le> j \<and> j < k \<longrightarrow> rd_cell ?arr j \<noteq> Some None)
            | None \<Rightarrow> (\<forall>j. 0 \<le> j \<and> j < ?c \<longrightarrow> rd_cell ?arr j \<noteq> Some None)"
    using find_slot_loop_spec[OF assms order_refl] by blast
  show ?thesis
  proof (cases r)
    case (Some k)
    then have k: "0 \<le> k" "k < ?c" "rd_cell ?arr k = Some None"
      "\<forall>j. 0 \<le> j \<and> j < k \<longrightarrow> rd_cell ?arr j \<noteq> Some None"
      using c by auto
    have ex: "\<exists>k. 0 \<le> k \<and> k < ?c \<and> rd_cell ?arr k = Some None" using k by blast
    have fs: "find_slot wld = Some (k, wld\<lparr>count_offscreens := ?c, max_offscreens := ?m,
                                            offscreen_api_surface := ?arr\<rparr>)"
      by (simp add: find_slot_def r Some)
    show ?thesis
      apply (rule exI[of _ k], rule exI[of _ ?c], rule exI[of _ ?m], rule exI[of _ ?arr])
      using fs k ok ex by auto
  next
    case None
    then have none: "\<forall>j. 0 \<le> j \<and> j < ?c \<longrightarrow> rd_cell ?arr j \<noteq> Some None"
      using c by simp
    then have nex: "\<not> (\<exists>k. 0 \<le> k \<and> k < ?c \<and> rd_cell ?arr k = Some None)" by blast
    show ?thesis
    proof (cases "?c \<ge> ?m")
      case True
      then have eq: "?c = ?m" using ok by linarith
      have ra: "realloc ?arr (?m + 20) = ?arr @ replicate 20 Uninit"
        using ok by (simp add: realloc_def nat_add_distrib)
      have fs: "find_slot wld = Some (?c, wld\<lparr>count_offscreens := ?c + 1, max_offscreens := ?m + 20,
                                            offscreen_api_surface := ?arr @ replicate 20 Uninit\<rparr>)"
        using True by (simp add: find_slot_def r None ra Let_def)
      have keep: "\<forall>j. 0 \<le> j \<and> j < ?c \<longrightarrow> rd_cell (?arr @ replicate 20 Uninit) j = rd_cell ?arr j"
        using ok by (auto simp: rd_cell_def rd_def nth_append)
      show ?thesis
        apply (rule exI[of _ ?c], rule exI[of _ "?c + 1"], rule exI[of _ "?m + 20"],
               rule exI[of _ "?arr @ replicate 20 Uninit"])
        using fs ok nex True keep by auto
    next
      case False
      have fs: "find_slot wld = Some (?c, wld\<lparr>count_offscreens := ?c + 1, max_offscreens := ?m,
                                            offscreen_api_surface := ?arr\<rparr>)"
        using False by (simp add: find_slot_def r None Let_def)
      show ?thesis
        apply (rule exI[of _ ?c], rule exI[of _ "?c + 1"], rule exI[of _ ?m], rule exI[of _ ?arr])
        using fs ok nex False by auto
    qed
  qed
qed

lemma Fl_Image_Surface_new_result:
  "Fl_Image_Surface_new w h high_res 0 wld =
     Some (length (surfaces wld),
           wld\<lparr>surfaces := surfaces wld @ [Some \<lparr>platform_surface = Some (length (drivers wld))\<rparr>],
                offscreens := offscreens wld @
                  [Some (blank_buffer
                           (if high_res \<noteq> 0 then round (of_int w * screen_scale wld) else w)
                           (if high_res \<noteq> 0 then round (of_int h * screen_scale wld) else h))],
                drivers := drivers wld @
                  [Some \<lparr>width = w, height = h, offscreen = length (offscreens wld) + 1,
                         image_surface = Some (length (surfaces wld)),
                         external_offscreen = False\<rparr>]\<rparr>)"
  by (simp add: Fl_Image_Surface_new_def newImageSurfaceDriver_def heap_new_def Let_def
                heap_set_def heap_get_def)

lemma registry_ok_iff:
  "registry_ok wld \<longleftrightarrow>
     0 \<le> count_offscreens wld \<and> count_offscreens wld \<le> max_offscreens wld
     \<and> int (length (offscreen_api_surface wld)) = max_offscreens wld
     \<and> (\<forall>i. 0 \<le> i \<and> i < count_offscreens wld \<longrightarrow> rd_cell (offscreen_api_surface wld) i \<noteq> None)"
proof
  assume ok: "registry_ok wld"
  then show "0 \<le> count_offscreens wld \<and> count_offscreens wld \<le> max_offscreens wld
     \<and> int (length (offscreen_api_surface wld)) = max_offscreens wld
     \<and> (\<forall>i. 0 \<le> i \<and> i < count_offscreens wld \<longrightarrow> rd_cell (offscreen_api_surface wld) i \<noteq> None)"
    using registry_ok_cells[OF ok] by (auto simp: registry_ok_def)
next
  let ?arr = "offscreen_api_surface wld"
  let ?c = "count_offscreens wld"
  assume a: "0 \<le> ?c \<and> ?c \<le> max_offscreens wld
     \<and> int (length ?arr) = max_offscreens wld
     \<and> (\<forall>i. 0 \<le> i \<and> i < ?c \<longrightarrow> rd_cell ?arr i \<noteq> None)"
  have "take (nat ?c) ?arr ! n \<noteq> Uninit" if "n < length (take (nat ?c) ?arr)" for n
  proof -
    have n: "n < nat ?c" "n < length ?arr" using that by auto
    then have "rd_cell ?arr (int n) \<noteq> None" using a by auto
    then have "?arr ! n \<noteq> Uninit" using n by (auto simp: rd_cell_def rd_def)
    then show ?thesis using n by simp
  qed
  then have "list_all (\<lambda>c. c \<noteq> Uninit) (take (nat ?c) ?arr)"
    unfolding list_all_length by blast
  then show "registry_ok wld" using a by (simp add: registry_ok_def)
qed

lemma fl_create_offscreen_result:
  assumes "registry_ok wld"
  shows "\<exists>rank c' m' a'.
           fl_create_offscreen w h wld =
             Some (length (offscreens wld) + 1,
                   wld\<lparr>count_offscreens := c', max_offscreens := m',
                        offscreen_api_surface := a'[nat rank := Val (Some (length (surfaces wld)))],
                        surfaces := surfaces wld @ [Some \<lparr>platform_surface = Some (length (drivers wld))\<rparr>],
                        offscreens := offscreens wld @
                          [Some (blank_buffer (round (of_int w * screen_scale wld))
                                              (round (of_int h * screen_scale wld)))],
                        drivers := drivers wld @
                          [Some \<lparr>width = w, height = h, offscreen = length (offscreens wld) + 1,
                                 image_surface = Some (length (surfaces wld)),
                                 external_offscreen = False\<rparr>]\<rparr>)
           \<and> 0 \<le> rank \<and> rank < int (length a') \<and> rank < c' \<and> c' \<le> m' \<and> int (length a') = m'
           \<and> count_offscreens wld \<le> c'
           \<and> (\<forall>j. 0 \<le> j \<and> j < count_offscreens wld \<longrightarrow>
                 rd_cell a' j = rd_cell (offscreen_api_surface wld) j)
           \<and> (if \<exists>k. 0 \<le> k \<and> k < count_offscreens wld
                      \<and> rd_cell (offscreen_api_surface wld) k = Some None
               then rank < count_offscreens wld
                    \<and> rd_cell (offscreen_api_surface wld) rank = Some None
                    \<and> (\<forall>j. 0 \<le> j \<and> j < rank \<longrightarrow> rd_cell (offscreen_api_surface wld) j \<noteq> Some None)
                    \<and> c' = count_offscreens wld \<and> m' = max_offscreens wld
                    \<and> a' = offscreen_api_surface wld
               else rank = count_offscreens wld \<and> c' = count_offscreens wld + 1
                    \<and> (if count_offscreens wld \<ge> max_offscreens wld
                        then m' = max_offscreens wld + 20
                             \<and> a' = offscreen_api_surface wld @ replicate 20 Uninit
                        else m' = max_offscreens wld \<and> a' = offscreen_api_surface wld))"
proof -
  obtain rank c' m' a' where
    fs: "find_slot wld = Some (rank, wld\<lparr>count_offscreens := c', max_offscreens := m',
                                            offscreen_api_surface := a'\<rparr>)"
    and rg: "0 \<le> rank" "rank < int (length a')"
    and rest: "rank < c' \<and> c' \<le> m' \<and> int (length a') = m'
           \<and> count_offscreens wld \<le> c'
           \<and> (\<forall>j. 0 \<le> j \<and> j < count_offscreens wld \<longrightarrow>
                 rd_cell a' j = rd_cell (offscreen_api_surface wld) j)
           \<and> (if \<exists>k. 0 \<le> k \<and> k < count_offscreens wld
                      \<and> rd_cell (offscreen_api_surface wld) k = Some None
               then rank < count_offscreens wld
                    \<and> rd_cell (offscreen_api_surface wld) rank = Some None
                    \<and> (\<forall>j. 0 \<le> j \<and> j < rank \<longrightarrow> rd_cell (offscreen_api_surface wld) j \<noteq> Some None)
                    \<and> c' = count_offscreens wld \<and> m' = max_offscreens wld
                    \<and> a' = offscreen_api_surface wld
               else rank = count_offscreens wld \<and> c' = count_offscreens wld + 1
                    \<and> (if count_offscreens wld \<ge> max_offscreens wld
                        then m' = max_offscreens wld + 20
                             \<and> a' = offscreen_api_surface wld @ replicate 20 Uninit
                        else m' = max_offscreens wld \<and> a' = offscreen_api_surface wld))"
    using find_slot_spec[OF assms] by blast
  let ?w1 = "wld\<lparr>count_offscreens := c', max_offscreens := m', offscreen_api_surface := a'\<rparr>"
  let ?s = "length (surfaces wld)"
  let ?w2 = "?w1\<lparr>surfaces := surfaces wld @ [Some \<lparr>platform_surface = Some (length (drivers wld))\<rparr>],
                offscreens := offscreens wld @
                  [Some (blank_buffer (round (of_int w * screen_scale wld))
                                      (round (of_int h * screen_scale wld)))],
                drivers := drivers wld @
                  [Some \<lparr>width = w, height = h, offscreen = length (offscreens wld) + 1,
                         image_surface = Some ?s, external_offscreen = False\<rparr>]\<rparr>"
  let ?w3 = "?w2\<lparr>offscreen_api_surface := a'[nat rank := Val (Some ?s)]\<rparr>"
  have nw: "Fl_Image_Surface_new w h 1 0 ?w1 = Some (?s, ?w2)"
    using Fl_Image_Surface_new_result[of w h 1 ?w1] by simp
  have wr: "wr (offscreen_api_surface ?w2) rank (Val (Some ?s)) = Some (a'[nat rank := Val (Some ?s)])"
    using rg by (simp add: wr_def)
  have rc: "rd_cell (offscreen_api_surface ?w3) rank = Some (Some ?s)"
    using rg by (simp add: rd_cell_def rd_def)
  have off: "Fl_Image_Surface_offscreen ?s ?w3 = Some (length (offscreens wld) + 1)"
    by (simp add: Fl_Image_Surface_offscreen_def heap_get_append)
  have "fl_create_offscreen w h wld = Some (length (offscreens wld) + 1, ?w3)"
    unfolding fl_create_offscreen_def
    by (simp only: fs nw wr rc off bind.bind_lunit prod.case Let_def)
  then have main: "fl_create_offscreen w h wld =
             Some (length (offscreens wld) + 1,
                   wld\<lparr>count_offscreens := c', max_offscreens := m',
                        offscreen_api_surface := a'[nat rank := Val (Some (length (surfaces wld)))],
                        surfaces := surfaces wld @ [Some \<lparr>platform_surface = Some (length (drivers wld))\<rparr>],
                        offscreens := offscreens wld @
                          [Some (blank_buffer (round (of_int w * screen_scale wld))
                                              (round (of_int h * screen_scale wld)))],
                        drivers := drivers wld @
                          [Some \<lparr>width = w, height = h, offscreen = length (offscreens wld) + 1,
                                 image_surface = Some (length (surfaces wld)),
                                 external_offscreen = False\<rparr>]\<rparr>)"
    by simp
  show ?thesis
    apply (rule exI[of _ rank], rule exI[of _ c'], rule exI[of _ m'], rule exI[of _ a'])
    apply (rule conjI, fact main)
    apply (rule conjI, fact rg(1))
    apply (rule conjI, fact rg(2))
    apply (fact rest)
    done
qed

lemma set_current_registry:
  assumes "set_current dev wld = Some w'"
  shows "offscreen_api_surface w' = offscreen_api_surface wld
         \<and> count_offscreens w' = count_offscreens wld
         \<and> max_offscreens w' = max_offscreens wld"
  by (subst (1 2 3) set_current_frame[OF assms]) simp

lemma pop_current_registry:
  assumes "pop_current wld = Some w'"
  shows "offscreen_api_surface w' = offscreen_api_surface wld
         \<and> count_offscreens w' = count_offscreens wld
         \<and> max_offscreens w' = max_offscreens wld"
  by (subst (1 2 3) pop_current_frame[OF assms]) simp

lemma end_current_registry:
  assumes "end_current ps wld = Some w'"
  shows "offscreen_api_surface w' = offscreen_api_surface wld
         \<and> count_offscreens w' = count_offscreens wld
         \<and> max_offscreens w' = max_offscreens wld"
  using assms pop_current_registry by (auto simp: end_current_def split: option.splits)

lemma delete_driver_registry:
  assumes "delete_driver ps wld = Some w'"
  shows "offscreen_api_surface w' = offscreen_api_surface wld
         \<and> count_offscreens w' = count_offscreens wld
         \<and> max_offscreens w' = max_offscreens wld"
  using assms
  by (cases ps) (auto simp: delete_driver_def bind_eq_Some_conv split: if_splits)

lemma Fl_Image_Surface_delete_registry:
  assumes "Fl_Image_Surface_delete p wld = Some w1"
  shows "offscreen_api_surface w1 = offscreen_api_surface wld
         \<and> count_offscreens w1 = count_offscreens wld
         \<and> max_offscreens w1 = max_offscreens wld"
proof -
  obtain surf where s: "heap_get (surfaces wld) p = Some surf"
    using assms by (auto simp: Fl_Image_Surface_delete_def split: bind_splits)
  obtain cur where c: "is_current p wld = Some cur"
    using s by (simp add: is_current_def)
  obtain w0 where e: "(if cur then end_current (platform_surface surf) wld else Some wld) = Some w0"
    using assms s c by (auto simp: Fl_Image_Surface_delete_def split: bind_splits)
  obtain w2 where d: "delete_driver (platform_surface surf) w0 = Some w2"
    using assms s c e by (auto simp: Fl_Image_Surface_delete_def split: bind_splits)
  obtain ss where r: "w1 = w2\<lparr>surfaces := ss\<rparr>"
    using assms s c e d by (auto simp: Fl_Image_Surface_delete_def split: bind_splits)
  have f0: "offscreen_api_surface w0 = offscreen_api_surface wld
         \<and> count_offscreens w0 = count_offscreens wld
         \<and> max_offscreens w0 = max_offscreens wld"
    using e end_current_registry by (cases cur) auto
  show ?thesis
    using f0 delete_driver_registry[OF d] r by simp
qed

lemma fl_delete_offscreen_loop_registry:
  assumes "fl_delete_offscreen_loop ctx i wld = Some wld'" "0 \<le> i"
  shows "wld' = wld \<or>
         (\<exists>k w1. i \<le> k \<and> k < count_offscreens wld \<and> k < int (length (offscreen_api_surface wld))
            \<and> offscreen_api_surface w1 = offscreen_api_surface wld
            \<and> count_offscreens w1 = count_offscreens wld
            \<and> max_offscreens w1 = max_offscreens wld
            \<and> wld' = w1\<lparr>offscreen_api_surface := (offscreen_api_surface wld)[nat k := Val None]\<rparr>)"
  using assms
proof (induction ctx i wld rule: fl_delete_offscreen_loop.induct)
  case (1 ctx i wld)
  show ?case
  proof (cases "i < count_offscreens wld")
    case False
    then show ?thesis using "1.prems" by (simp add: fl_delete_offscreen_loop.simps)
  next
    case True
    obtain hit where h: "slot_owns i ctx wld = Some hit"
      using "1.prems"(1) True
      by (subst (asm) fl_delete_offscreen_loop.simps) (auto split: bind_splits)
    show ?thesis
    proof (cases hit)
      case False
      have "fl_delete_offscreen_loop ctx (i + 1) wld = Some wld'"
        using "1.prems"(1) True h False
        by (subst (asm) fl_delete_offscreen_loop.simps) simp
      then have "wld' = wld \<or>
         (\<exists>k w1. i + 1 \<le> k \<and> k < count_offscreens wld \<and> k < int (length (offscreen_api_surface wld))
            \<and> offscreen_api_surface w1 = offscreen_api_surface wld
            \<and> count_offscreens w1 = count_offscreens wld
            \<and> max_offscreens w1 = max_offscreens wld
            \<and> wld' = w1\<lparr>offscreen_api_surface := (offscreen_api_surface wld)[nat k := Val None]\<rparr>)"
        using "1.IH"[OF True h] False "1.prems"(2) by simp
      then show ?thesis
      proof (elim disjE exE conjE)
        assume "wld' = wld" then show ?thesis by simp
      next
        fix k w1
        assume "i + 1 \<le> k" "k < count_offscreens wld" "k < int (length (offscreen_api_surface wld))"
          "offscreen_api_surface w1 = offscreen_api_surface wld"
          "count_offscreens w1 = count_offscreens wld"
          "max_offscreens w1 = max_offscreens wld"
          "wld' = w1\<lparr>offscreen_api_surface := (offscreen_api_surface wld)[nat k := Val None]\<rparr>"
        then show ?thesis
          by (intro disjI2 exI[of _ k] exI[of _ w1]) simp
      qed
    next
      case True': True
      have body: "do { sp \<leftarrow> rd_cell (offscreen_api_surface wld) i;
                    p \<leftarrow> sp;
                    w1 \<leftarrow> Fl_Image_Surface_delete p wld;
                    arr \<leftarrow> wr (offscreen_api_surface w1) i (Val None);
                    Some (w1\<lparr>offscreen_api_surface := arr\<rparr>) } = Some wld'"
        using "1.prems"(1) True h True'
        by (subst (asm) fl_delete_offscreen_loop.simps) simp
      then obtain p w1 arr where del: "Fl_Image_Surface_delete p wld = Some w1"
        and w: "wr (offscreen_api_surface w1) i (Val None) = Some arr"
        and e: "wld' = w1\<lparr>offscreen_api_surface := arr\<rparr>"
        by (auto split: bind_splits)
      note f = Fl_Image_Surface_delete_registry[OF del]
      have a: "arr = (offscreen_api_surface wld)[nat i := Val None]"
        "i < int (length (offscreen_api_surface wld))"
        using w f by (auto simp: wr_def split: if_splits)
      show ?thesis
        using True f a e by (intro disjI2 exI[of _ i] exI[of _ w1]) simp
    qed
  qed
qed

lemma registry_ok_create:
  assumes "registry_ok wld" "fl_create_offscreen w h wld = Some (off, wld')"
  shows "registry_ok wld'"
proof -
  obtain rank c' m' a' where
    r: "fl_create_offscreen w h wld =
             Some (length (offscreens wld) + 1,
                   wld\<lparr>count_offscreens := c', max_offscreens := m',
                        offscreen_api_surface := a'[nat rank := Val (Some (length (surfaces wld)))],
                        surfaces := surfaces wld @ [Some \<lparr>platform_surface = Some (length (drivers wld))\<rparr>],
                        offscreens := offscreens wld @
                          [Some (blank_buffer (round (of_int w * screen_scale wld))
                                              (round (of_int h * screen_scale wld)))],
                        drivers := drivers wld @
                          [Some \<lparr>width = w, height = h, offscreen = length (offscreens wld) + 1,
                                 image_surface = Some (length (surfaces wld)),
                                 external_offscreen = False\<rparr>]\<rparr>)"
    and rg: "0 \<le> rank" "rank < int (length a')" "rank < c'" "c' \<le> m'" "int (length a') = m'"
      "count_offscreens wld \<le> c'"
    and keep: "\<forall>j. 0 \<le> j \<and> j < count_offscreens wld \<longrightarrow>
                 rd_cell a' j = rd_cell (offscreen_api_surface wld) j"
    and cs0: "if \<exists>k. 0 \<le> k \<and> k < count_offscreens wld
                      \<and> rd_cell (offscreen_api_surface wld) k = Some None
               then rank < count_offscreens wld
                    \<and> rd_cell (offscreen_api_surface wld) rank = Some None
                    \<and> (\<forall>j. 0 \<le> j \<and> j < rank \<longrightarrow> rd_cell (offscreen_api_surface wld) j \<noteq> Some None)
                    \<and> c' = count_offscreens wld \<and> m' = max_offscreens wld
                    \<and> a' = offscreen_api_surface wld
               else rank = count_offscreens wld \<and> c' = count_offscreens wld + 1
                    \<and> (if count_offscreens wld \<ge> max_offscreens wld
                        then m' = max_offscreens wld + 20
                             \<and> a' = offscreen_api_surface wld @ replicate 20 Uninit
                        else m' = max_offscreens wld \<and> a' = offscreen_api_surface wld)"
    using fl_create_offscreen_result[OF assms(1), of w h] by blast
  have cs: "c' = count_offscreens wld \<or> (rank = count_offscreens wld \<and> c' = count_offscreens wld + 1)"
  proof (cases "\<exists>k. 0 \<le> k \<and> k < count_offscreens wld
                      \<and> rd_cell (offscreen_api_surface wld) k = Some None")
    case True
    then show ?thesis using cs0 by (simp only: if_True) simp
  next
    case False
    then show ?thesis using cs0 by (simp only: if_False) simp
  qed
  note ok = assms(1)[unfolded registry_ok_iff]
  have cells: "rd_cell (a'[nat rank := Val (Some (length (surfaces wld)))]) i \<noteq> None"
    if "0 \<le> i" "i < c'" for i
  proof (cases "i = rank")
    case True
    then show ?thesis using rd_cell_update[OF rg(1,2)] by simp
  next
    case False
    have "i < count_offscreens wld" using cs that False by linarith
    then have "rd_cell a' i \<noteq> None" using keep ok that by auto
    then show ?thesis using False rd_cell_update[OF rg(1,2)] by simp
  qed
  have e: "wld' = wld\<lparr>count_offscreens := c', max_offscreens := m',
                        offscreen_api_surface := a'[nat rank := Val (Some (length (surfaces wld)))],
                        surfaces := surfaces wld @ [Some \<lparr>platform_surface = Some (length (drivers wld))\<rparr>],
                        offscreens := offscreens wld @
                          [Some (blank_buffer (round (of_int w * screen_scale wld))
                                              (round (of_int h * screen_scale wld)))],
                        drivers := drivers wld @
                          [Some \<lparr>width = w, height = h, offscreen = length (offscreens wld) + 1,
                                 image_surface = Some (length (surfaces wld)),
                                 external_offscreen = False\<rparr>]\<rparr>"
    using r assms(2) by simp
  show ?thesis
    unfolding registry_ok_iff e using rg ok cells by simp
qed

lemma registry_ok_delete:
  assumes "registry_ok wld" "fl_delete_offscreen ctx wld = Some wld'"
  shows "registry_ok wld'"
proof (cases "ctx = 0")
  case True
  then show ?thesis using assms by (simp add: fl_delete_offscreen_def)
next
  case False
  then have "fl_delete_offscreen_loop ctx 0 wld = Some wld'"
    using assms(2) by (simp add: fl_delete_offscreen_def)
  from fl_delete_offscreen_loop_registry[OF this order_refl]
  show ?thesis
  proof (elim disjE exE conjE)
    assume "wld' = wld" then show ?thesis using assms(1) by simp
  next
    fix k w1
    assume k: "0 \<le> k" "k < count_offscreens wld" "k < int (length (offscreen_api_surface wld))"
      and f: "offscreen_api_surface w1 = offscreen_api_surface wld"
          "count_offscreens w1 = count_offscreens wld"
          "max_offscreens w1 = max_offscreens wld"
      and e: "wld' = w1\<lparr>offscreen_api_surface := (offscreen_api_surface wld)[nat k := Val None]\<rparr>"
    note ok = assms(1)[unfolded registry_ok_iff]
    show ?thesis
      unfolding registry_ok_iff e using ok f rd_cell_update[OF k(1,3)] by simp
  qed
qed

lemma registry_reachable_ok: "registry_reachable wld \<Longrightarrow> registry_ok wld"
proof (induction rule: registry_reachable.induct)
  case (start s)
  show ?case by (simp add: registry_ok_def initial_world_def)
next
  case (create wld w h off wld')
  then show ?case using registry_ok_create by blast
next
  case (delete wld ctx wld')
  then show ?case using registry_ok_delete by blast
qed

section \<open>Claims about the compositor\<close>

text \<open>
  Claim C1. For a mask of \<open>w \<times> h\<close> bytes and background and foreground buffers of
  \<open>h\<close> rows of \<open>line_size \<ge> 3 * w\<close> bytes, \<open>h * line_size\<close> within the range of
  \<^verbatim>\<open>int\<close>, \<open>copy_with_mask\<close> returns, and for every
  row \<open>i\<close>, pixel \<open>j\<close> and channel \<open>c\<close> the background byte becomes
  \<open>(background * (255 - alpha) + foreground * alpha) / 255\<close> with C's truncating division
  (\<open>sdiv\<close>), where \<open>alpha\<close> is the mask byte of that pixel (of row \<open>h - i - 1\<close> when
  \<open>bottom_to_top\<close> is set). The byte is the old background when \<open>alpha = 0\<close> and the
  foreground when \<open>alpha = 255\<close>. Bytes outside the \<open>3 * w\<close> pixel bytes of a row are
  not touched.
\<close>

theorem copy_with_mask_composites:
  assumes "0 \<le> data_w mask_img" and "3 * data_w mask_img \<le> line_size"
    and "data_h mask_img * data_w mask_img \<le> int (length (array mask_img))"
    and "data_h mask_img * line_size \<le> int (length dib_dst)"
    and "data_h mask_img * line_size \<le> int (length dib_src)"
    and "data_h mask_img * line_size \<le> 2147483647"
  shows "\<exists>dst'. copy_with_mask mask_img dib_dst dib_src line_size bottom_to_top = Some dst'
           \<and> length dst' = length dib_dst
           \<and> (\<forall>i j c. 0 \<le> i \<and> i < data_h mask_img \<and> 0 \<le> j \<and> j < data_w mask_img \<and> 0 \<le> c \<and> c < 3 \<longrightarrow>
                (let k = nat (i * line_size + 3 * j + c);
                     alpha = uint (array mask_img !
                               nat ((if bottom_to_top then data_h mask_img - i - 1 else i) * data_w mask_img + j));
                     background = uint (dib_dst ! k);
                     foreground = uint (dib_src ! k)
                 in uint (dst' ! k) = (background * (255 - alpha) + foreground * alpha) sdiv 255
                    \<and> (alpha = 0 \<longrightarrow> dst' ! k = dib_dst ! k)
                    \<and> (alpha = 255 \<longrightarrow> dst' ! k = dib_src ! k)))
           \<and> (\<forall>k. (\<forall>i. 0 \<le> i \<and> i < data_h mask_img \<longrightarrow>
                       int k < i * line_size \<or> i * line_size + 3 * data_w mask_img \<le> int k)
                 \<longrightarrow> dst' ! k = dib_dst ! k)"
proof -
  obtain dst' where r: "copy_with_mask_rows (array mask_img) dib_src line_size bottom_to_top
                          (data_w mask_img) (data_h mask_img) 0 dib_dst = Some dst'"
    and l: "length dst' = length dib_dst"
    and px: "\<And>i j c. 0 \<le> i \<Longrightarrow> i < data_h mask_img \<Longrightarrow> 0 \<le> j \<Longrightarrow> j < data_w mask_img \<Longrightarrow> 0 \<le> c \<Longrightarrow> c < 3 \<Longrightarrow>
                 dst' ! nat (i * line_size + 3 * j + c) =
                   blend (dib_dst ! nat (i * line_size + 3 * j + c)) (dib_src ! nat (i * line_size + 3 * j + c))
                         (array mask_img ! nat ((if bottom_to_top then data_h mask_img - i - 1 else i) * data_w mask_img + j))"
    and fr: "\<And>k. (\<forall>i. 0 \<le> i \<and> i < data_h mask_img \<longrightarrow>
                       int k < i * line_size \<or> i * line_size + 3 * data_w mask_img \<le> int k)
                 \<Longrightarrow> dst' ! k = dib_dst ! k"
    using copy_with_mask_rows_spec[OF order_refl assms, of bottom_to_top] by blast
  have word0: "uint a = 0 \<Longrightarrow> a = 0" and word255: "uint a = 255 \<Longrightarrow> a = 255" for a :: uchar
    by (simp_all add: word_uint_eq_iff)
  have pix: "(let k = nat (i * line_size + 3 * j + c);
                     alpha = uint (array mask_img !
                               nat ((if bottom_to_top then data_h mask_img - i - 1 else i) * data_w mask_img + j));
                     background = uint (dib_dst ! k);
                     foreground = uint (dib_src ! k)
                 in uint (dst' ! k) = (background * (255 - alpha) + foreground * alpha) sdiv 255
                    \<and> (alpha = 0 \<longrightarrow> dst' ! k = dib_dst ! k)
                    \<and> (alpha = 255 \<longrightarrow> dst' ! k = dib_src ! k))"
    if "0 \<le> i" "i < data_h mask_img" "0 \<le> j" "j < data_w mask_img" "0 \<le> c" "c < 3" for i j c
  proof -
    define a where "a = array mask_img !
        nat ((if bottom_to_top then data_h mask_img - i - 1 else i) * data_w mask_img + j)"
    define k where "k = nat (i * line_size + 3 * j + c)"
    have e: "dst' ! k = blend (dib_dst ! k) (dib_src ! k) a"
      unfolding a_def k_def by (rule px[OF that])
    have "uint (dst' ! k) = (uint (dib_dst ! k) * (255 - uint a) + uint (dib_src ! k) * uint a) sdiv 255"
      unfolding e by (rule uint_blend)
    moreover have "dst' ! k = dib_dst ! k" if "uint a = 0"
      unfolding e word0[OF that] by (rule blend_alpha_0)
    moreover have "dst' ! k = dib_src ! k" if "uint a = 255"
      unfolding e word255[OF that] by (rule blend_alpha_255)
    ultimately show ?thesis
      unfolding Let_def a_def k_def by blast
  qed
  show ?thesis
    unfolding copy_with_mask_def Let_def using r l pix fr by (intro exI[of _ dst']) (simp add: Let_def)
qed

text \<open>
  The theorem at a \<open>2 \<times> 2\<close> mask with rows of 7 bytes: row 1, pixel 0, channel 0 has
  \<open>alpha = 128\<close>, background 80 and foreground 130.
\<close>

theorem copy_with_mask_composites_witness:
  "0 \<le> data_w \<lparr>array = [0, 255, 128, 64], data_w = 2, data_h = 2, img_d = 1, img_ld = 0,
                  img_w = 2, img_h = 2, alloc_array = 1\<rparr>
   \<and> (3::int) * 2 \<le> 7 \<and> (2::int) * 2 \<le> int (length [0, 255, 128, 64 :: uchar])
   \<and> copy_with_mask \<lparr>array = [0, 255, 128, 64], data_w = 2, data_h = 2, img_d = 1, img_ld = 0,
                        img_w = 2, img_h = 2, alloc_array = 1\<rparr>
         [10, 20, 30, 40, 50, 60, 70, 80, 90, 100, 110, 120, 130, 140]
         [200, 190, 180, 170, 160, 150, 140, 130, 120, 110, 100, 90, 80, 70] 7 False
       = Some [10, 20, 30, 170, 160, 150, 70, 105, 105, 105, 107, 112, 117, 140]
   \<and> uint ([10, 20, 30, 170, 160, 150, 70, 105, 105, 105, 107, 112, 117, 140 :: uchar] ! 7)
       = (80 * (255 - 128) + 130 * 128) sdiv 255"
proof -
  let ?M = "\<lparr>array = [0, 255, 128, 64], data_w = 2, data_h = 2, img_d = 1, img_ld = 0,
                  img_w = 2, img_h = 2, alloc_array = 1\<rparr>"
  let ?D = "[10, 20, 30, 40, 50, 60, 70, 80, 90, 100, 110, 120, 130, 140] :: uchar list"
  let ?S = "[200, 190, 180, 170, 160, 150, 140, 130, 120, 110, 100, 90, 80, 70] :: uchar list"
  let ?R = "[10, 20, 30, 170, 160, 150, 70, 105, 105, 105, 107, 112, 117, 140] :: uchar list"
  have h: "0 \<le> data_w ?M" "3 * data_w ?M \<le> 7"
    "data_h ?M * data_w ?M \<le> int (length (array ?M))"
    "data_h ?M * 7 \<le> int (length ?D)" "data_h ?M * 7 \<le> int (length ?S)"
    "data_h ?M * 7 \<le> 2147483647"
    by simp_all
  have ev: "copy_with_mask ?M ?D ?S 7 False = Some ?R"
    by code_simp
  obtain dst' where r: "copy_with_mask ?M ?D ?S 7 False = Some dst'"
    and px: "\<forall>i j c. 0 \<le> i \<and> i < data_h ?M \<and> 0 \<le> j \<and> j < data_w ?M \<and> 0 \<le> c \<and> c < 3 \<longrightarrow>
                (let k = nat (i * 7 + 3 * j + c);
                     alpha = uint (array ?M ! nat ((if False then data_h ?M - i - 1 else i) * data_w ?M + j));
                     background = uint (?D ! k);
                     foreground = uint (?S ! k)
                 in uint (dst' ! k) = (background * (255 - alpha) + foreground * alpha) sdiv 255
                    \<and> (alpha = 0 \<longrightarrow> dst' ! k = ?D ! k)
                    \<and> (alpha = 255 \<longrightarrow> dst' ! k = ?S ! k))"
    using copy_with_mask_composites[OF h, of False] by blast
  have d: "dst' = ?R" using r ev by simp
  have "uint (dst' ! 7) = (80 * (255 - 128) + 130 * 128) sdiv 255"
    using px[rule_format, of 1 0 0] by (simp add: Let_def)
  then show ?thesis
    using h ev unfolding d by simp
qed

text \<open>
  Claim C5. For a mask of \<open>w \<times> h\<close> bytes, \<open>h * w\<close> within the range of \<^verbatim>\<open>int\<close>: with
  \<open>bottom_to_top\<close> set, \<open>copy_with_mask\<close> gives the same result as with
  \<open>bottom_to_top\<close> clear on the mask with its rows reversed, for all background and
  foreground buffers (also where an access leaves a buffer: both runs are then undefined).
  Where the buffers hold \<open>h\<close> rows of \<open>line_size \<ge> 3 * w\<close> bytes it returns, and output
  row \<open>i\<close>, read at \<open>i * line_size\<close> in the background and the foreground, is blended
  with mask row \<open>h - i - 1\<close>.
\<close>

theorem copy_with_mask_bottom_to_top:
  assumes "0 \<le> data_w mask_img"
    and "data_h mask_img * data_w mask_img \<le> int (length (array mask_img))"
    and "data_h mask_img * data_w mask_img \<le> 2147483647"
  shows "copy_with_mask mask_img dib_dst dib_src line_size True =
         copy_with_mask
           (mask_img\<lparr>array := reverse_rows (nat (data_w mask_img)) (nat (data_h mask_img)) (array mask_img)\<rparr>)
           dib_dst dib_src line_size False
       \<and> (3 * data_w mask_img \<le> line_size
            \<and> data_h mask_img * line_size \<le> int (length dib_dst)
            \<and> data_h mask_img * line_size \<le> int (length dib_src)
            \<and> data_h mask_img * line_size \<le> 2147483647 \<longrightarrow>
          (\<exists>dst'. copy_with_mask mask_img dib_dst dib_src line_size True = Some dst'
             \<and> (\<forall>i j c. 0 \<le> i \<and> i < data_h mask_img \<and> 0 \<le> j \<and> j < data_w mask_img \<and> 0 \<le> c \<and> c < 3 \<longrightarrow>
                  (let k = nat (i * line_size + 3 * j + c);
                       alpha = uint (array mask_img ! nat ((data_h mask_img - i - 1) * data_w mask_img + j))
                   in uint (dst' ! k) =
                        (uint (dib_dst ! k) * (255 - alpha) + uint (dib_src ! k) * alpha) sdiv 255))))"
proof (intro conjI impI)
  show "copy_with_mask mask_img dib_dst dib_src line_size True =
         copy_with_mask
           (mask_img\<lparr>array := reverse_rows (nat (data_w mask_img)) (nat (data_h mask_img)) (array mask_img)\<rparr>)
           dib_dst dib_src line_size False"
    unfolding copy_with_mask_def Let_def
    using copy_with_mask_rows_flip[OF order_refl assms] by simp
next
  assume b: "3 * data_w mask_img \<le> line_size
            \<and> data_h mask_img * line_size \<le> int (length dib_dst)
            \<and> data_h mask_img * line_size \<le> int (length dib_src)
            \<and> data_h mask_img * line_size \<le> 2147483647"
  obtain dst' where r: "copy_with_mask_rows (array mask_img) dib_src line_size True
                          (data_w mask_img) (data_h mask_img) 0 dib_dst = Some dst'"
    and px: "\<And>i j c. 0 \<le> i \<Longrightarrow> i < data_h mask_img \<Longrightarrow> 0 \<le> j \<Longrightarrow> j < data_w mask_img \<Longrightarrow> 0 \<le> c \<Longrightarrow> c < 3 \<Longrightarrow>
                 dst' ! nat (i * line_size + 3 * j + c) =
                   blend (dib_dst ! nat (i * line_size + 3 * j + c)) (dib_src ! nat (i * line_size + 3 * j + c))
                         (array mask_img ! nat ((if True then data_h mask_img - i - 1 else i) * data_w mask_img + j))"
    using copy_with_mask_rows_spec[OF order_refl assms(1) _ assms(2), of line_size dib_dst dib_src True] b
    by blast
  have "uint (dst' ! nat (i * line_size + 3 * j + c)) =
          (uint (dib_dst ! nat (i * line_size + 3 * j + c))
             * (255 - uint (array mask_img ! nat ((data_h mask_img - i - 1) * data_w mask_img + j)))
           + uint (dib_src ! nat (i * line_size + 3 * j + c))
             * uint (array mask_img ! nat ((data_h mask_img - i - 1) * data_w mask_img + j))) sdiv 255"
    if "0 \<le> i" "i < data_h mask_img" "0 \<le> j" "j < data_w mask_img" "0 \<le> c" "c < 3" for i j c
    using px[OF that] by (simp only: uint_blend if_True)
  then show "\<exists>dst'. copy_with_mask mask_img dib_dst dib_src line_size True = Some dst'
             \<and> (\<forall>i j c. 0 \<le> i \<and> i < data_h mask_img \<and> 0 \<le> j \<and> j < data_w mask_img \<and> 0 \<le> c \<and> c < 3 \<longrightarrow>
                  (let k = nat (i * line_size + 3 * j + c);
                       alpha = uint (array mask_img ! nat ((data_h mask_img - i - 1) * data_w mask_img + j))
                   in uint (dst' ! k) =
                        (uint (dib_dst ! k) * (255 - alpha) + uint (dib_src ! k) * alpha) sdiv 255))"
    unfolding copy_with_mask_def Let_def using r by (intro exI[of _ dst']) simp
qed

text \<open>
  The theorem at the \<open>2 \<times> 2\<close> mask \<open>[0, 255, 128, 64]\<close>, whose reversed rows are
  \<open>[128, 64, 0, 255]\<close>.
\<close>

theorem copy_with_mask_bottom_to_top_witness:
  "0 \<le> data_w \<lparr>array = [0, 255, 128, 64], data_w = 2, data_h = 2, img_d = 1, img_ld = 0,
                  img_w = 2, img_h = 2, alloc_array = 1\<rparr>
   \<and> (2::int) * 2 \<le> int (length [0, 255, 128, 64 :: uchar])
   \<and> (2::int) * 2 \<le> 2147483647
   \<and> reverse_rows 2 2 [0, 255, 128, 64 :: uchar] = [128, 64, 0, 255]
   \<and> copy_with_mask \<lparr>array = [0, 255, 128, 64], data_w = 2, data_h = 2, img_d = 1, img_ld = 0,
                        img_w = 2, img_h = 2, alloc_array = 1\<rparr>
         [10, 20, 30, 40, 50, 60, 70, 80, 90, 100, 110, 120, 130, 140]
         [200, 190, 180, 170, 160, 150, 140, 130, 120, 110, 100, 90, 80, 70] 7 True
       = Some [105, 105, 105, 72, 77, 82, 70, 80, 90, 100, 100, 90, 80, 140]
   \<and> copy_with_mask \<lparr>array = [128, 64, 0, 255], data_w = 2, data_h = 2, img_d = 1, img_ld = 0,
                        img_w = 2, img_h = 2, alloc_array = 1\<rparr>
         [10, 20, 30, 40, 50, 60, 70, 80, 90, 100, 110, 120, 130, 140]
         [200, 190, 180, 170, 160, 150, 140, 130, 120, 110, 100, 90, 80, 70] 7 False
       = Some [105, 105, 105, 72, 77, 82, 70, 80, 90, 100, 100, 90, 80, 140]"
proof -
  let ?M = "\<lparr>array = [0, 255, 128, 64], data_w = 2, data_h = 2, img_d = 1, img_ld = 0,
                  img_w = 2, img_h = 2, alloc_array = 1\<rparr>"
  let ?D = "[10, 20, 30, 40, 50, 60, 70, 80, 90, 100, 110, 120, 130, 140] :: uchar list"
  let ?S = "[200, 190, 180, 170, 160, 150, 140, 130, 120, 110, 100, 90, 80, 70] :: uchar list"
  have h: "0 \<le> data_w ?M" "data_h ?M * data_w ?M \<le> int (length (array ?M))"
    "data_h ?M * data_w ?M \<le> 2147483647"
    by simp_all
  have rv: "reverse_rows 2 2 [0, 255, 128, 64 :: uchar] = [128, 64, 0, 255]"
    by code_simp
  have ev: "copy_with_mask ?M ?D ?S 7 True = Some [105, 105, 105, 72, 77, 82, 70, 80, 90, 100, 100, 90, 80, 140]"
    by code_simp
  have "copy_with_mask ?M ?D ?S 7 True =
        copy_with_mask (?M\<lparr>array := reverse_rows (nat (data_w ?M)) (nat (data_h ?M)) (array ?M)\<rparr>) ?D ?S 7 False"
    using copy_with_mask_bottom_to_top[OF h, of ?D ?S 7] by blast
  then have "copy_with_mask (?M\<lparr>array := [128, 64, 0, 255]\<rparr>) ?D ?S 7 False =
             Some [105, 105, 105, 72, 77, 82, 70, 80, 90, 100, 100, 90, 80, 140]"
    using ev rv by simp
  then show ?thesis using h rv ev by simp
qed

section \<open>Claims about the luminance reducer\<close>

text \<open>
  Claim C6. Let \<open>img\<close> be the image the loops read: the source itself when its pixel
  size is \<open>(W, H)\<close>, the resampled copy otherwise, and let \<open>ld\<close> be its stride, \<open>3 * W\<close>
  when it reports none. If its array holds the \<open>H\<close> rows and \<open>W * H\<close>, \<open>3 * W\<close> and the
  row offsets are within the range of \<^verbatim>\<open>int\<close>, \<open>RGB3_to_RGB1\<close> returns a new
  image of depth 1 and pixel size \<open>W \<times> H\<close> that owns an array of \<open>W * H\<close> bytes, and the
  byte of pixel \<open>(i, j)\<close> is \<open>(R + G + B) div 3\<close> of the three bytes at \<open>i * ld + 3 * j\<close>.
\<close>

theorem RGB3_to_RGB1_luminance:
  assumes "heap_get hp rgb3 = Some img0"
    and "(if W \<noteq> data_w img0 \<or> H \<noteq> data_h img0 then copy_image img0 W H else Some img0) = Some img"
    and "0 \<le> W" and "0 \<le> H"
    and "ld = (if img_ld img = 0 then 3 * W else img_ld img)"
    and "H = 0 \<or> (0 \<le> ld \<and> (H - 1) * ld + 3 * W \<le> int (length (array img))
                   \<and> (H - 1) * ld \<le> 2147483647)"
    and "W * H \<le> 2147483647" and "3 * W \<le> 2147483647"
  shows "\<exists>rgb1 hp' out. RGB3_to_RGB1 copy_image hp rgb3 W H = Some (rgb1, hp')
           \<and> heap_get hp' rgb1 = Some out
           \<and> data_w out = W \<and> data_h out = H \<and> img_d out = 1 \<and> alloc_array out = 1
           \<and> length (array out) = nat (W * H)
           \<and> (\<forall>i j. 0 \<le> i \<and> i < H \<and> 0 \<le> j \<and> j < W \<longrightarrow>
                 uint (array out ! nat (i * W + j)) =
                   (uint (array img ! nat (i * ld + 3 * j))
                    + uint (array img ! nat (i * ld + 3 * j + 1))
                    + uint (array img ! nat (i * ld + 3 * j + 2))) div 3)"
proof -
  have b: "H \<le> 0 \<or> (0 \<le> ld \<and> (H - 1) * ld + 3 * W \<le> int (length (array img))
                   \<and> (H - 1) * ld \<le> 2147483647)"
    using assms(6) by auto
  obtain data' where r: "RGB3_to_RGB1 copy_image hp rgb3 W H =
             Some (if W \<noteq> data_w img0 \<or> H \<noteq> data_h img0
                   then (length hp + 1, hp @ [None, Some ((Fl_RGB_Image_new data' W H 1 0)\<lparr>alloc_array := 1\<rparr>)])
                   else (length hp, hp @ [Some ((Fl_RGB_Image_new data' W H 1 0)\<lparr>alloc_array := 1\<rparr>)]))"
    and l: "length data' = nat (W * H)"
    and px: "\<And>i j. 0 \<le> i \<Longrightarrow> i < H \<Longrightarrow> 0 \<le> j \<Longrightarrow> j < W \<Longrightarrow>
                 data' ! nat (i * W + j) =
                   lum (array img ! nat (i * ld + 3 * j)) (array img ! nat (i * ld + 3 * j + 1))
                       (array img ! nat (i * ld + 3 * j + 2))"
    using RGB3_to_RGB1_result[where copy_image = copy_image, OF assms(1-5) b assms(7,8)] by blast
  define out where "out = (Fl_RGB_Image_new data' W H 1 0)\<lparr>alloc_array := 1\<rparr>"
  define rgb1 where "rgb1 = (if W \<noteq> data_w img0 \<or> H \<noteq> data_h img0 then length hp + 1 else length hp)"
  define hp' where "hp' = (if W \<noteq> data_w img0 \<or> H \<noteq> data_h img0 then hp @ [None, Some out] else hp @ [Some out])"
  have 1: "RGB3_to_RGB1 copy_image hp rgb3 W H = Some (rgb1, hp')"
    unfolding r rgb1_def hp'_def out_def by simp
  have 2: "heap_get hp' rgb1 = Some out"
    unfolding rgb1_def hp'_def by (simp add: heap_get_append)
  have 3: "data_w out = W \<and> data_h out = H \<and> img_d out = 1 \<and> alloc_array out = 1
           \<and> length (array out) = nat (W * H)"
    unfolding out_def using l by (simp add: Fl_RGB_Image_new_def)
  have arr: "array out = data'" by (simp add: out_def Fl_RGB_Image_new_def)
  have 4: "uint (array out ! nat (i * W + j)) =
                   (uint (array img ! nat (i * ld + 3 * j))
                    + uint (array img ! nat (i * ld + 3 * j + 1))
                    + uint (array img ! nat (i * ld + 3 * j + 2))) div 3"
    if "0 \<le> i" "i < H" "0 \<le> j" "j < W" for i j
    unfolding arr px[OF that] by (rule uint_lum)
  show ?thesis
    using 1 2 3 4 by blast
qed

text \<open>
  The theorem at a \<open>2 \<times> 2\<close> source with an explicit stride of 8 bytes, which needs no
  resampling: the output is \<open>[2, 5, 20, 255]\<close>.
\<close>

theorem RGB3_to_RGB1_luminance_witness:
  "heap_get [Some (Fl_RGB_Image_new [1, 2, 3, 4, 5, 7, 0, 0, 10, 20, 30, 255, 255, 255] 2 2 3 8)] 0
     = Some (Fl_RGB_Image_new [1, 2, 3, 4, 5, 7, 0, 0, 10, 20, 30, 255, 255, 255] 2 2 3 8)
   \<and> (2 - 1) * 8 + 3 * 2 \<le> int (length [1, 2, 3, 4, 5, 7, 0, 0, 10, 20, 30, 255, 255, 255 :: uchar])
   \<and> RGB3_to_RGB1 (\<lambda>img W H. None)
        [Some (Fl_RGB_Image_new [1, 2, 3, 4, 5, 7, 0, 0, 10, 20, 30, 255, 255, 255] 2 2 3 8)] 0 2 2
      = Some (1, [Some (Fl_RGB_Image_new [1, 2, 3, 4, 5, 7, 0, 0, 10, 20, 30, 255, 255, 255] 2 2 3 8),
                  Some \<lparr>array = [2, 5, 20, 255], data_w = 2, data_h = 2, img_d = 1, img_ld = 0,
                        img_w = 2, img_h = 2, alloc_array = 1\<rparr>])
   \<and> uint ([2, 5, 20, 255 :: uchar] ! 2) = (10 + 20 + 30) div 3"
proof -
  let ?A = "[1, 2, 3, 4, 5, 7, 0, 0, 10, 20, 30, 255, 255, 255] :: uchar list"
  let ?I = "Fl_RGB_Image_new ?A 2 2 3 8"
  let ?c = "\<lambda>(img :: Fl_RGB_Image) (W :: int) (H :: int). (None :: Fl_RGB_Image option)"
  let ?O = "\<lparr>array = [2, 5, 20, 255], data_w = 2, data_h = 2, img_d = 1, img_ld = 0,
                        img_w = 2, img_h = 2, alloc_array = 1\<rparr>"
  have h1: "heap_get [Some ?I] 0 = Some ?I" by (simp add: heap_get_def)
  have h2: "(if 2 \<noteq> data_w ?I \<or> 2 \<noteq> data_h ?I then ?c ?I 2 2 else Some ?I) = Some ?I"
    by (simp add: Fl_RGB_Image_new_def)
  have h5: "8 = (if img_ld ?I = 0 then 3 * 2 else img_ld ?I)"
    by (simp add: Fl_RGB_Image_new_def)
  have h6: "(2::int) = 0 \<or> ((0::int) \<le> 8 \<and> (2 - 1) * 8 + 3 * 2 \<le> int (length (array ?I))
                          \<and> (2 - 1) * 8 \<le> (2147483647::int))"
    by (simp add: Fl_RGB_Image_new_def)
  have ev: "RGB3_to_RGB1 ?c [Some ?I] 0 2 2 = Some (1, [Some ?I, Some ?O])"
    by code_simp
  obtain rgb1 hp' out where r: "RGB3_to_RGB1 ?c [Some ?I] 0 2 2 = Some (rgb1, hp')"
    and o: "heap_get hp' rgb1 = Some out"
    and px: "\<forall>i j. 0 \<le> i \<and> i < 2 \<and> 0 \<le> j \<and> j < 2 \<longrightarrow>
                 uint (array out ! nat (i * 2 + j)) =
                   (uint (array ?I ! nat (i * 8 + 3 * j))
                    + uint (array ?I ! nat (i * 8 + 3 * j + 1))
                    + uint (array ?I ! nat (i * 8 + 3 * j + 2))) div 3"
    using RGB3_to_RGB1_luminance[where copy_image = ?c, OF h1 h2 _ _ h5 h6] by auto
  have e: "rgb1 = 1" "hp' = [Some ?I, Some ?O]" using r ev by simp_all
  have "out = ?O" using o unfolding e by (simp add: heap_get_def)
  then have "uint ([2, 5, 20, 255 :: uchar] ! 2) = (10 + 20 + 30) div 3"
    using px[rule_format, of 1 0] by (simp add: Fl_RGB_Image_new_def)
  then show ?thesis using h1 ev by simp
qed

text \<open>
  Claim C7. Whenever \<open>RGB3_to_RGB1\<close> returns, every object that was in the heap before
  the call, the source image with its pixel array among them, is in it unchanged. The
  result is at an address that held nothing before. When the size differed, the resampled
  copy was created at the first fresh address and is gone on return; when it did not, no
  other object was created. Nothing else is live above the old heap.
\<close>

theorem RGB3_to_RGB1_source_unchanged:
  assumes "RGB3_to_RGB1 copy_image hp rgb3 W H = Some (rgb1, hp')"
  shows "(\<forall>p. p < length hp \<longrightarrow> heap_get hp' p = heap_get hp p)
       \<and> (\<exists>img0. heap_get hp rgb3 = Some img0 \<and> heap_get hp' rgb3 = Some img0
            \<and> (if W \<noteq> data_w img0 \<or> H \<noteq> data_h img0
                then rgb1 = length hp + 1 \<and> heap_get hp' (length hp) = None
                else rgb1 = length hp))
       \<and> heap_get hp rgb1 = None \<and> heap_get hp' rgb1 \<noteq> None
       \<and> (\<forall>p. length hp \<le> p \<and> p \<noteq> rgb1 \<longrightarrow> heap_get hp' p = None)"
proof -
  obtain img0 out where g: "heap_get hp rgb3 = Some img0"
    and s: "if W \<noteq> data_w img0 \<or> H \<noteq> data_h img0
            then rgb1 = length hp + 1 \<and> hp' = hp @ [None, Some out]
            else rgb1 = length hp \<and> hp' = hp @ [Some out]"
    using RGB3_to_RGB1_shape[OF assms] by blast
  have lt: "rgb3 < length hp"
    using g by (auto simp: heap_get_def split: if_splits)
  show ?thesis
  proof (cases "W \<noteq> data_w img0 \<or> H \<noteq> data_h img0")
    case True
    then have e: "rgb1 = length hp + 1" "hp' = hp @ [None, Some out]" using s by auto
    have "\<forall>p. length hp \<le> p \<and> p \<noteq> rgb1 \<longrightarrow> heap_get hp' p = None"
      unfolding e by (auto simp: heap_get_append nth_Cons split: nat.splits)
    moreover have "\<forall>p. p < length hp \<longrightarrow> heap_get hp' p = heap_get hp p"
      unfolding e by (simp add: heap_get_append)
    moreover have "heap_get hp rgb1 = None \<and> heap_get hp' rgb1 \<noteq> None \<and> heap_get hp' (length hp) = None"
      unfolding e by (simp add: heap_get_append) (simp add: heap_get_def)
    ultimately show ?thesis using g lt True e(1) by auto
  next
    case False
    then have e: "rgb1 = length hp" "hp' = hp @ [Some out]" using s by auto
    have "\<forall>p. length hp \<le> p \<and> p \<noteq> rgb1 \<longrightarrow> heap_get hp' p = None"
      unfolding e by (auto simp: heap_get_append)
    moreover have "\<forall>p. p < length hp \<longrightarrow> heap_get hp' p = heap_get hp p"
      unfolding e by (simp add: heap_get_append)
    moreover have "heap_get hp rgb1 = None \<and> heap_get hp' rgb1 \<noteq> None"
      unfolding e by (simp add: heap_get_append) (simp add: heap_get_def)
    ultimately show ?thesis using g lt False e(1) by auto
  qed
qed

text \<open>
  The theorem at a \<open>2 \<times> 2\<close> source reduced to \<open>3 \<times> 1\<close>: the copy at address 1 is
  released, the result is at address 2, and the source at address 0 is as before.
\<close>

theorem RGB3_to_RGB1_source_unchanged_witness:
  "RGB3_to_RGB1 (\<lambda>img W H. Some (Fl_RGB_Image_new (replicate (nat (3 * W * H)) 9) W H 3 0))
          [Some (Fl_RGB_Image_new [1, 2, 3, 4, 5, 7, 10, 20, 30, 255, 255, 255] 2 2 3 0)] 0 3 1
     = Some (2, [Some (Fl_RGB_Image_new [1, 2, 3, 4, 5, 7, 10, 20, 30, 255, 255, 255] 2 2 3 0),
                 None,
                 Some \<lparr>array = [9, 9, 9], data_w = 3, data_h = 1, img_d = 1, img_ld = 0,
                       img_w = 3, img_h = 1, alloc_array = 1\<rparr>])
   \<and> heap_get [Some (Fl_RGB_Image_new [1, 2, 3, 4, 5, 7, 10, 20, 30, 255, 255, 255] 2 2 3 0),
                 None,
                 Some \<lparr>array = [9, 9, 9], data_w = 3, data_h = 1, img_d = 1, img_ld = 0,
                       img_w = 3, img_h = 1, alloc_array = 1\<rparr>] 0
       = heap_get [Some (Fl_RGB_Image_new [1, 2, 3, 4, 5, 7, 10, 20, 30, 255, 255, 255] 2 2 3 0)] 0"
proof -
  let ?I = "Fl_RGB_Image_new [1, 2, 3, 4, 5, 7, 10, 20, 30, 255, 255, 255] 2 2 3 0"
  let ?c = "\<lambda>(img :: Fl_RGB_Image) W H. Some (Fl_RGB_Image_new (replicate (nat (3 * W * H)) 9) W H 3 0)"
  let ?O = "\<lparr>array = [9, 9, 9], data_w = 3, data_h = 1, img_d = 1, img_ld = 0,
                       img_w = 3, img_h = 1, alloc_array = 1\<rparr>"
  have ev: "RGB3_to_RGB1 ?c [Some ?I] 0 3 1 = Some (2, [Some ?I, None, Some ?O])"
    by code_simp
  have "\<forall>p. p < length [Some ?I] \<longrightarrow> heap_get [Some ?I, None, Some ?O] p = heap_get [Some ?I] p"
    using RGB3_to_RGB1_source_unchanged[OF ev] by blast
  then have "heap_get [Some ?I, None, Some ?O] 0 = heap_get [Some ?I] 0"
    by simp
  then show ?thesis using ev by simp
qed

section \<open>Claims about the surface\<close>

text \<open>
  Claim C3, as the spec states it, has the image report the physical pixel size. It does
  not: for a surface of \<open>10 \<times> 5\<close> FLTK units created at scale factor 2, whose buffer is
  \<open>20 \<times> 10\<close> pixels, \<open>image()\<close> returns an image of \<open>20 \<times> 10\<close> pixels that reports the
  size \<open>10 \<times> 5\<close>.
\<close>

theorem image_reports_physical_size_counterexample:
  "fl_create_offscreen 10 5 (initial_world 2) = Some (1, hires_world)
   \<and> offscreen_get hires_world 1 = Some \<lparr>buf_w = 20, buf_h = 10, buf_pixels = replicate 600 0\<rparr>
   \<and> Fl_Image_Surface_image 0 hires_world =
         Some (0, hires_world\<lparr>images :=
                    [Some \<lparr>array = replicate 600 0, data_w = 20, data_h = 10, img_d = 3, img_ld = 0,
                           img_w = 10, img_h = 5, alloc_array = 1\<rparr>]\<rparr>)
   \<and> (10 :: int, 5 :: int) \<noteq> (20, 10)"
proof -
  have 1: "fl_create_offscreen 10 5 (initial_world 2) = Some (1, hires_world)"
    by code_simp
  have 2: "offscreen_get hires_world 1 = Some \<lparr>buf_w = 20, buf_h = 10, buf_pixels = replicate 600 0\<rparr>"
    by code_simp
  have 3: "Fl_Image_Surface_image 0 hires_world =
         Some (0, hires_world\<lparr>images :=
                    [Some \<lparr>array = replicate 600 0, data_w = 20, data_h = 10, img_d = 3, img_ld = 0,
                           img_w = 10, img_h = 5, alloc_array = 1\<rparr>]\<rparr>)"
    by code_simp
  show ?thesis using 1 2 3 by simp
qed

text \<open>
  Claim C3, amended. For a surface with a live driver and buffer, \<open>image()\<close> returns,
  and its run goes through the states \<open>w1\<close>, \<open>w2\<close>, \<open>w3\<close>, \<open>w'\<close>. When the driver is
  not the active destination, \<open>w1\<close> is the state after pushing it: the driver is active
  and the destination that was active is on top of the activation stack. When it is
  active already, nothing is pushed and nothing popped. Either way the driver is the
  active destination in \<open>w1\<close>, the state in which the driver's \<open>image()\<close> runs, and still
  in \<open>w2\<close>, the state it leaves; \<open>w3\<close>, the state after the pop, has the active
  destination and the activation stack of the call, and so has \<open>w'\<close>, the state on
  return. The image is a new object that owns its data; its pixels and pixel size are
  the buffer's, and the size it reports is the driver's \<open>(width, height)\<close>, the size in
  FLTK units that \<open>printable_rect\<close> returns. No surface, driver or buffer changes.
\<close>

theorem image_extracts_copy:
  assumes "heap_get (surfaces wld) this = Some surf"
    and "platform_surface surf = Some p"
    and "heap_get (drivers wld) p = Some drv"
    and "offscreen_get wld (offscreen drv) = Some buf"
    and "device_live wld (current_surface wld)"
  shows "\<exists>img w1 w2 w3 w' i.
             Fl_Image_Surface_image_states this wld = Some (img, w1, w2, w3, w')
           \<and> Fl_Image_Surface_image this wld = Some (img, w')
           \<and> (if current_surface wld = Driver_Device p
               then w1 = wld \<and> w3 = w2
               else push_current (Some (Driver_Device p)) wld = Some w1
                    \<and> surface_stack w1 = current_surface wld # surface_stack wld
                    \<and> pop_current w2 = Some w3)
           \<and> current_surface w1 = Driver_Device p
           \<and> driver_image (Some p) w1 = Some (img, w2)
           \<and> current_surface w2 = Driver_Device p \<and> surface_stack w2 = surface_stack w1
           \<and> current_surface w3 = current_surface wld \<and> surface_stack w3 = surface_stack wld
           \<and> Fl_Image_scale img (width drv) (height drv) 1 1 w3 = Some w'
           \<and> current_surface w' = current_surface wld \<and> surface_stack w' = surface_stack wld
           \<and> heap_get (images wld) img = None \<and> heap_get (images w') img = Some i
           \<and> (\<forall>q. q \<noteq> img \<longrightarrow> heap_get (images w') q = heap_get (images wld) q)
           \<and> alloc_array i = 1 \<and> array i = buf_pixels buf
           \<and> data_w i = buf_w buf \<and> data_h i = buf_h buf
           \<and> img_w i = width drv \<and> img_h i = height drv
           \<and> surfaces w' = surfaces wld \<and> drivers w' = drivers wld \<and> offscreens w' = offscreens wld"
proof -
  let ?img = "length (images wld)"
  let ?i = "(snapshot buf)\<lparr>img_w := width drv, img_h := height drv\<rparr>"
  let ?pushed = "wld\<lparr>surface_stack := current_surface wld # surface_stack wld,
                     current_surface := Driver_Device p\<rparr>"
  let ?w1 = "if current_surface wld = Driver_Device p then wld else ?pushed"
  let ?w2 = "?w1\<lparr>images := images wld @ [Some (snapshot buf)]\<rparr>"
  let ?w3 = "wld\<lparr>images := images wld @ [Some (snapshot buf)]\<rparr>"
  let ?w' = "wld\<lparr>images := images wld @ [Some ?i]\<rparr>"
  have st: "Fl_Image_Surface_image_states this wld = Some (?img, ?w1, ?w2, ?w3, ?w')"
    by (rule Fl_Image_Surface_image_states_result[OF assms])
  have r: "Fl_Image_Surface_image this wld = Some (?img, ?w')"
    by (rule Fl_Image_Surface_image_result[OF assms])
  have act: "if current_surface wld = Driver_Device p
               then ?w1 = wld \<and> ?w3 = ?w2
               else push_current (Some (Driver_Device p)) wld = Some ?w1
                    \<and> surface_stack ?w1 = current_surface wld # surface_stack wld
                    \<and> pop_current ?w2 = Some ?w3"
  proof (cases "current_surface wld = Driver_Device p")
    case True
    then show ?thesis by simp
  next
    case False
    have pu: "push_current (Some (Driver_Device p)) wld = Some ?pushed"
      using assms(3) by (simp add: push_current_def driver_set_current_def)
    have live: "device_live (?pushed\<lparr>images := images wld @ [Some (snapshot buf)],
                                     surface_stack := surface_stack wld\<rparr>) (current_surface wld)"
      using assms(5) by (simp add: device_live_def split: Fl_Surface_Device.splits)
    have po: "pop_current (?pushed\<lparr>images := images wld @ [Some (snapshot buf)]\<rparr>) = Some ?w3"
      unfolding pop_current_def using set_current_live[OF live] by simp
    show ?thesis using False pu po by simp
  qed
  have cur1: "current_surface ?w1 = Driver_Device p" by simp
  have b1: "offscreen_get ?w1 (offscreen drv) = Some buf"
    using assms(4) offscreen_get_cong[of ?w1 wld] by simp
  have d1: "heap_get (drivers ?w1) p = Some drv"
    using assms(3) by simp
  have di: "driver_image (Some p) ?w1 = Some (?img, ?w2)"
    using driver_image_result[OF d1 b1] by simp
  have cur2: "current_surface ?w2 = Driver_Device p \<and> surface_stack ?w2 = surface_stack ?w1"
    by simp
  have cur3: "current_surface ?w3 = current_surface wld \<and> surface_stack ?w3 = surface_stack wld"
    by simp
  have sc: "Fl_Image_scale ?img (width drv) (height drv) 1 1 ?w3 = Some ?w'"
    by (simp add: Fl_Image_scale_def heap_set_def)
  have cur4: "current_surface ?w' = current_surface wld \<and> surface_stack ?w' = surface_stack wld"
    by simp
  have fresh: "heap_get (images wld) ?img = None \<and> heap_get (images ?w') ?img = Some ?i"
    by (simp add: heap_get_def)
  have frame: "\<forall>q. q \<noteq> ?img \<longrightarrow> heap_get (images ?w') q = heap_get (images wld) q"
    by (auto simp: heap_get_def nth_append)
  have px: "alloc_array ?i = 1 \<and> array ?i = buf_pixels buf
           \<and> data_w ?i = buf_w buf \<and> data_h ?i = buf_h buf
           \<and> img_w ?i = width drv \<and> img_h ?i = height drv"
    by (simp add: snapshot_def Fl_RGB_Image_new_def)
  have rest: "surfaces ?w' = surfaces wld \<and> drivers ?w' = drivers wld \<and> offscreens ?w' = offscreens wld"
    by simp
  show ?thesis
    apply (rule exI[of _ ?img], rule exI[of _ ?w1], rule exI[of _ ?w2], rule exI[of _ ?w3],
           rule exI[of _ ?w'], rule exI[of _ ?i])
    using st r act cur1 di cur2 cur3 sc cur4 fresh frame px rest
    by blast
qed

text \<open>
  The theorem at \<open>hires_world\<close>, where the display is the active destination: the
  driver's \<open>image()\<close> runs with the driver at address 0 active and the display on the
  activation stack, and the display is active again on return.
\<close>

theorem image_extracts_copy_witness:
  "heap_get (surfaces hires_world) 0 = Some \<lparr>platform_surface = Some 0\<rparr>
   \<and> offscreen_get hires_world 1 = Some \<lparr>buf_w = 20, buf_h = 10, buf_pixels = replicate 600 0\<rparr>
   \<and> device_live hires_world (current_surface hires_world)
   \<and> current_surface hires_world = Display_Device
   \<and> (\<exists>img w1 w2 w3 w' i. Fl_Image_Surface_image_states 0 hires_world = Some (img, w1, w2, w3, w')
         \<and> Fl_Image_Surface_image 0 hires_world = Some (img, w')
         \<and> current_surface w1 = Driver_Device 0 \<and> surface_stack w1 = [Display_Device]
         \<and> driver_image (Some 0) w1 = Some (img, w2)
         \<and> current_surface w2 = Driver_Device 0
         \<and> current_surface w3 = Display_Device \<and> surface_stack w3 = []
         \<and> current_surface w' = Display_Device \<and> surface_stack w' = []
         \<and> heap_get (images w') img = Some i
         \<and> data_w i = 20 \<and> data_h i = 10 \<and> img_w i = 10 \<and> img_h i = 5)"
proof -
  let ?drv = "\<lparr>width = 10, height = 5, offscreen = 1, image_surface = Some 0,
                       external_offscreen = False\<rparr>"
  let ?buf = "\<lparr>buf_w = 20, buf_h = 10, buf_pixels = replicate 600 0\<rparr>"
  have h1: "heap_get (surfaces hires_world) 0 = Some \<lparr>platform_surface = Some 0\<rparr>"
    by (simp add: hires_world_def heap_get_def)
  have h2: "platform_surface \<lparr>platform_surface = Some 0\<rparr> = Some 0" by simp
  have h3: "heap_get (drivers hires_world) 0 = Some ?drv"
    by (simp add: hires_world_def heap_get_def)
  have h4: "offscreen_get hires_world (offscreen ?drv) = Some ?buf"
    by (simp add: hires_world_def offscreen_get_def heap_get_def)
  have h5: "device_live hires_world (current_surface hires_world)"
    by (simp add: hires_world_def device_live_def)
  have c: "current_surface hires_world = Display_Device" "surface_stack hires_world = []"
    by (simp_all add: hires_world_def)
  have ne: "Display_Device \<noteq> Driver_Device 0" by simp
  show ?thesis
    using image_extracts_copy[OF h1 h2 h3 h4 h5] h1 h4 h5 unfolding c if_not_P[OF ne]
    by fastforce
qed

text \<open>
  Claim C4, as the spec states it, has the image extracted after \<open>rescale()\<close> report the
  new physical size. It does not: after the scale factor changed from 2 to \<open>3 / 2\<close>, the
  new buffer is \<open>15 \<times> 8\<close> pixels and the image still reports \<open>10 \<times> 5\<close>.
\<close>

theorem rescale_reports_physical_size_counterexample:
  "rescale example_draw 0 (hires_world\<lparr>screen_scale := 3 / 2\<rparr>) = Some rescaled_world
   \<and> offscreen_get rescaled_world 2 = Some \<lparr>buf_w = 15, buf_h = 8, buf_pixels = replicate 360 1\<rparr>
   \<and> Fl_Image_Surface_image 0 rescaled_world =
         Some (1, rescaled_world\<lparr>images :=
                    [None,
                     Some \<lparr>array = replicate 360 1, data_w = 15, data_h = 8, img_d = 3, img_ld = 0,
                           img_w = 10, img_h = 5, alloc_array = 1\<rparr>]\<rparr>)
   \<and> (10 :: int, 5 :: int) \<noteq> (15, 8)"
proof -
  have 1: "rescale example_draw 0 (hires_world\<lparr>screen_scale := 3 / 2\<rparr>) = Some rescaled_world"
    by code_simp
  have 2: "offscreen_get rescaled_world 2 = Some \<lparr>buf_w = 15, buf_h = 8, buf_pixels = replicate 360 1\<rparr>"
    by code_simp
  have 3: "Fl_Image_Surface_image 0 rescaled_world =
         Some (1, rescaled_world\<lparr>images :=
                    [None,
                     Some \<lparr>array = replicate 360 1, data_w = 15, data_h = 8, img_d = 3, img_ld = 0,
                           img_w = 10, img_h = 5, alloc_array = 1\<rparr>]\<rparr>)"
    by code_simp
  show ?thesis using 1 2 3 by simp
qed

text \<open>
  Claim C4, amended. For a surface with an owned buffer that is not the active
  destination, \<open>rescale()\<close> returns. The new driver has the \<open>width\<close> and \<open>height\<close> of the
  old one (the logical size, which \<open>printable_rect\<close> still returns) and owns a new buffer:
  the image captured from the old buffer, drawn at \<open>(0, 0)\<close> into a blank buffer whose
  size is \<open>round (logical * scale)\<close> for the current scale factor. The old driver and the
  old buffer are gone, and the active destination and the activation stack are restored.
  An image extracted afterwards has the pixel size of the new buffer and reports the
  logical size.
\<close>

theorem rescale_keeps_logical_size:
  assumes "heap_get (surfaces wld) this = Some surf"
    and "platform_surface surf = Some p"
    and "heap_get (drivers wld) p = Some drv"
    and "offscreen_get wld (offscreen drv) = Some buf"
    and "\<not> external_offscreen drv"
    and "device_live wld (current_surface wld)"
    and "current_surface wld \<noteq> Driver_Device p"
  shows "\<exists>w' p' drv' buf'. rescale draw this wld = Some w'
           \<and> heap_get (surfaces w') this = Some (surf\<lparr>platform_surface := Some p'\<rparr>)
           \<and> heap_get (drivers w') p' = Some drv'
           \<and> width drv' = width drv \<and> height drv' = height drv
           \<and> printable_rect this w' = Some (width drv, height drv)
           \<and> \<not> external_offscreen drv'
           \<and> offscreen_get w' (offscreen drv') = Some buf'
           \<and> buf' = draw \<lparr>array = buf_pixels buf, data_w = buf_w buf, data_h = buf_h buf,
                            img_d = 3, img_ld = 0, img_w = width drv, img_h = height drv,
                            alloc_array = 1\<rparr>
                          0 0
                          (blank_buffer (round (of_int (width drv) * screen_scale wld))
                                        (round (of_int (height drv) * screen_scale wld)))
           \<and> heap_get (drivers w') p = None
           \<and> offscreen_get w' (offscreen drv) = None
           \<and> current_surface w' = current_surface wld \<and> surface_stack w' = surface_stack wld
           \<and> screen_scale w' = screen_scale wld
           \<and> (\<exists>img w'' i. Fl_Image_Surface_image this w' = Some (img, w'')
                 \<and> heap_get (images w'') img = Some i
                 \<and> data_w i = buf_w buf' \<and> data_h i = buf_h buf'
                 \<and> img_w i = width drv \<and> img_h i = height drv)"
proof -
  let ?captured = "(snapshot buf)\<lparr>img_w := width drv, img_h := height drv\<rparr>"
  let ?blank = "blank_buffer (round (of_int (width drv) * screen_scale wld))
                             (round (of_int (height drv) * screen_scale wld))"
  let ?buf' = "draw ?captured 0 0 ?blank"
  let ?p' = "length (drivers wld)"
  let ?drv' = "\<lparr>width = width drv, height = height drv,
                offscreen = length (offscreens wld) + 1, image_surface = None,
                external_offscreen = False\<rparr>"
  let ?surf' = "surf\<lparr>platform_surface := Some ?p'\<rparr>"
  let ?w' = "wld\<lparr>images := images wld @ [None],
                 offscreens := (offscreens wld)[offscreen drv - 1 := None] @ [Some ?buf'],
                 drivers := (drivers wld)[p := None] @ [Some ?drv'],
                 surfaces := (surfaces wld)[this := Some ?surf']\<rparr>"
  note ob = offscreen_get_Some[OF assms(4)]
  have lt: "this < length (surfaces wld)" "p < length (drivers wld)"
    "offscreen drv - 1 < length (offscreens wld)"
    using heap_get_lt[OF assms(1)] heap_get_lt[OF assms(3)] ob heap_get_lt by auto
  have r: "rescale draw this wld = Some ?w'"
    using rescale_result[OF assms(1-4,6,7), of draw] assms(5) by simp
  have s': "heap_get (surfaces ?w') this = Some ?surf'"
    using lt by (simp add: heap_get_update)
  have ps': "platform_surface ?surf' = Some ?p'" by simp
  have d': "heap_get (drivers ?w') ?p' = Some ?drv'"
    by (simp add: heap_get_append)
  have b': "offscreen_get ?w' (offscreen ?drv') = Some ?buf'"
    by (simp add: offscreen_get_def heap_get_append)
  have old_d: "heap_get (drivers ?w') p = None"
    using lt by (simp add: heap_get_append heap_get_update)
  have old_b: "offscreen_get ?w' (offscreen drv) = None"
    using lt ob by (simp add: offscreen_get_def heap_get_append heap_get_update)
  have pr: "printable_rect this ?w' = Some (width drv, height drv)"
    using s' d' by (simp add: printable_rect_def driver_printable_rect_def)
  have live': "device_live ?w' (current_surface ?w')"
    using assms(6,7) lt
    by (auto simp: device_live_def heap_get_append heap_get_update split: Fl_Surface_Device.splits
             dest: heap_get_lt)
  have sub: "\<exists>img w'' i. Fl_Image_Surface_image this ?w' = Some (img, w'')
                 \<and> heap_get (images w'') img = Some i
                 \<and> data_w i = buf_w ?buf' \<and> data_h i = buf_h ?buf'
                 \<and> img_w i = width drv \<and> img_h i = height drv"
    using Fl_Image_Surface_image_sizes[OF s' ps' d' b' live'] by simp
  have cap: "?captured = \<lparr>array = buf_pixels buf, data_w = buf_w buf, data_h = buf_h buf,
                            img_d = 3, img_ld = 0, img_w = width drv, img_h = height drv,
                            alloc_array = 1\<rparr>"
    by (simp add: snapshot_def Fl_RGB_Image_new_def)
  show ?thesis
    apply (rule exI[of _ ?w'], rule exI[of _ ?p'], rule exI[of _ ?drv'], rule exI[of _ ?buf'])
    apply (intro conjI)
    subgoal by (rule r)
    subgoal by (rule s')
    subgoal by (rule d')
    subgoal by simp
    subgoal by simp
    subgoal by (rule pr)
    subgoal by simp
    subgoal by (rule b')
    subgoal by (simp only: cap)
    subgoal by (rule old_d)
    subgoal by (rule old_b)
    subgoal by simp
    subgoal by simp
    subgoal by simp
    subgoal by (rule sub)
    done
qed

text \<open>The theorem at \<open>hires_world\<close> with the scale factor changed to \<open>3 / 2\<close>.\<close>

theorem rescale_keeps_logical_size_witness:
  "heap_get (surfaces (hires_world\<lparr>screen_scale := 3 / 2\<rparr>)) 0 = Some \<lparr>platform_surface = Some 0\<rparr>
   \<and> device_live (hires_world\<lparr>screen_scale := 3 / 2\<rparr>) (current_surface (hires_world\<lparr>screen_scale := 3 / 2\<rparr>))
   \<and> current_surface (hires_world\<lparr>screen_scale := 3 / 2\<rparr>) \<noteq> Driver_Device 0
   \<and> rescale example_draw 0 (hires_world\<lparr>screen_scale := 3 / 2\<rparr>) = Some rescaled_world
   \<and> printable_rect 0 rescaled_world = Some (10, 5)
   \<and> blank_buffer (round (of_int 10 * (3 / 2 :: rat))) (round (of_int 5 * (3 / 2 :: rat)))
       = \<lparr>buf_w = 15, buf_h = 8, buf_pixels = replicate 360 0\<rparr>"
proof -
  let ?W = "hires_world\<lparr>screen_scale := 3 / 2\<rparr>"
  let ?drv = "\<lparr>width = 10, height = 5, offscreen = 1, image_surface = Some 0,
                       external_offscreen = False\<rparr>"
  let ?buf = "\<lparr>buf_w = 20, buf_h = 10, buf_pixels = replicate 600 0\<rparr>"
  have h1: "heap_get (surfaces ?W) 0 = Some \<lparr>platform_surface = Some 0\<rparr>"
    by (simp add: hires_world_def heap_get_def)
  have h2: "platform_surface \<lparr>platform_surface = Some 0\<rparr> = Some 0" by simp
  have h3: "heap_get (drivers ?W) 0 = Some ?drv"
    by (simp add: hires_world_def heap_get_def)
  have h4: "offscreen_get ?W (offscreen ?drv) = Some ?buf"
    by (simp add: hires_world_def offscreen_get_def heap_get_def)
  have h5: "\<not> external_offscreen ?drv" by simp
  have h6: "device_live ?W (current_surface ?W)"
    by (simp add: hires_world_def device_live_def)
  have h7: "current_surface ?W \<noteq> Driver_Device 0"
    by (simp add: hires_world_def)
  have ev: "rescale example_draw 0 ?W = Some rescaled_world"
    by code_simp
  have bl: "blank_buffer (round (of_int 10 * (3 / 2 :: rat))) (round (of_int 5 * (3 / 2 :: rat)))
       = \<lparr>buf_w = 15, buf_h = 8, buf_pixels = replicate 360 0\<rparr>"
    by code_simp
  obtain w' where r: "rescale example_draw 0 ?W = Some w'"
    and pr: "printable_rect 0 w' = Some (width ?drv, height ?drv)"
    using rescale_keeps_logical_size[OF h1 h2 h3 h4 h5 h6 h7, of example_draw] by blast
  have "w' = rescaled_world" using r ev by simp
  then have "printable_rect 0 rescaled_world = Some (10, 5)" using pr by simp
  then show ?thesis using h1 h6 h7 ev bl by simp
qed

text \<open>
  Claim C10. For a surface whose \<open>platform_surface\<close> is null, \<open>offscreen()\<close> returns the
  null handle 0 and \<open>highres_image()\<close> returns \<^verbatim>\<open>NULL\<close> and changes nothing; for a surface
  with a live driver, \<open>offscreen()\<close> returns the driver's \<open>offscreen\<close>.
\<close>

theorem null_driver_queries:
  assumes "heap_get (surfaces wld) this = Some surf"
  shows "(platform_surface surf = None \<longrightarrow>
            Fl_Image_Surface_offscreen this wld = Some 0
            \<and> highres_image this wld = Some (None, wld))
       \<and> (\<forall>p drv. platform_surface surf = Some p \<and> heap_get (drivers wld) p = Some drv \<longrightarrow>
            Fl_Image_Surface_offscreen this wld = Some (offscreen drv))"
  using assms by (auto simp: Fl_Image_Surface_offscreen_def highres_image_def)

text \<open>The theorem at a surface without a driver, and at the surface of \<open>hires_world\<close>.\<close>

theorem null_driver_queries_witness:
  "heap_get (surfaces null_driver_world) 0 = Some \<lparr>platform_surface = None\<rparr>
   \<and> Fl_Image_Surface_offscreen 0 null_driver_world = Some 0
   \<and> highres_image 0 null_driver_world = Some (None, null_driver_world)
   \<and> heap_get (surfaces hires_world) 0 = Some \<lparr>platform_surface = Some 0\<rparr>
   \<and> Fl_Image_Surface_offscreen 0 hires_world = Some 1"
proof -
  let ?drv = "\<lparr>width = 10, height = 5, offscreen = 1, image_surface = Some 0,
                       external_offscreen = False\<rparr>"
  have n: "heap_get (surfaces null_driver_world) 0 = Some \<lparr>platform_surface = None\<rparr>"
    by (simp add: null_driver_world_def initial_world_def heap_get_def)
  have h: "heap_get (surfaces hires_world) 0 = Some \<lparr>platform_surface = Some 0\<rparr>"
    by (simp add: hires_world_def heap_get_def)
  have d: "heap_get (drivers hires_world) 0 = Some ?drv"
    by (simp add: hires_world_def heap_get_def)
  have 1: "Fl_Image_Surface_offscreen 0 null_driver_world = Some 0
           \<and> highres_image 0 null_driver_world = Some (None, null_driver_world)"
    using null_driver_queries[OF n] by simp
  have 2: "Fl_Image_Surface_offscreen 0 hires_world = Some 1"
    using null_driver_queries[OF h] d by fastforce
  show ?thesis using n h 1 2 by simp
qed

section \<open>Claims about the registry\<close>

text \<open>
  Claim C2. In every state that creations and deletions reach from the initial one,
  \<open>fl_create_offscreen\<close> returns the handle of a new surface and stores that surface in
  one slot, \<open>rank\<close>, leaving the other slots in use as they are. If a slot in use is null,
  \<open>rank\<close> is the lowest null slot, and the count, the capacity and the array's length do
  not change. Otherwise \<open>rank\<close> is the count, the count grows by one, and the capacity
  stays unless the count has reached it; then the capacity and the array grow by 20.
\<close>

theorem fl_create_offscreen_slot:
  assumes "registry_reachable wld"
  shows "\<exists>off wld' rank s.
           fl_create_offscreen w h wld = Some (off, wld')
           \<and> 0 \<le> rank
           \<and> rd_cell (offscreen_api_surface wld') rank = Some (Some s)
           \<and> heap_get (surfaces wld) s = None \<and> heap_get (surfaces wld') s \<noteq> None
           \<and> Fl_Image_Surface_offscreen s wld' = Some off
           \<and> (\<forall>j. 0 \<le> j \<and> j < count_offscreens wld \<and> j \<noteq> rank \<longrightarrow>
                 rd_cell (offscreen_api_surface wld') j = rd_cell (offscreen_api_surface wld) j)
           \<and> (if \<exists>k. 0 \<le> k \<and> k < count_offscreens wld
                      \<and> rd_cell (offscreen_api_surface wld) k = Some None
               then rank < count_offscreens wld
                    \<and> rd_cell (offscreen_api_surface wld) rank = Some None
                    \<and> (\<forall>j. 0 \<le> j \<and> j < rank \<longrightarrow> rd_cell (offscreen_api_surface wld) j \<noteq> Some None)
                    \<and> count_offscreens wld' = count_offscreens wld
                    \<and> max_offscreens wld' = max_offscreens wld
                    \<and> length (offscreen_api_surface wld') = length (offscreen_api_surface wld)
               else rank = count_offscreens wld
                    \<and> count_offscreens wld' = count_offscreens wld + 1
                    \<and> (if count_offscreens wld \<ge> max_offscreens wld
                        then max_offscreens wld' = max_offscreens wld + 20
                             \<and> length (offscreen_api_surface wld') = length (offscreen_api_surface wld) + 20
                        else max_offscreens wld' = max_offscreens wld
                             \<and> length (offscreen_api_surface wld') = length (offscreen_api_surface wld)))"
proof -
  have ok: "registry_ok wld" by (rule registry_reachable_ok[OF assms])
  let ?s = "length (surfaces wld)"
  let ?off = "length (offscreens wld) + 1"
  obtain rank c' m' a' where
    r: "fl_create_offscreen w h wld =
             Some (?off,
                   wld\<lparr>count_offscreens := c', max_offscreens := m',
                        offscreen_api_surface := a'[nat rank := Val (Some ?s)],
                        surfaces := surfaces wld @ [Some \<lparr>platform_surface = Some (length (drivers wld))\<rparr>],
                        offscreens := offscreens wld @
                          [Some (blank_buffer (round (of_int w * screen_scale wld))
                                              (round (of_int h * screen_scale wld)))],
                        drivers := drivers wld @
                          [Some \<lparr>width = w, height = h, offscreen = ?off,
                                 image_surface = Some ?s,
                                 external_offscreen = False\<rparr>]\<rparr>)"
    and rg: "0 \<le> rank" "rank < int (length a')"
    and keep: "\<forall>j. 0 \<le> j \<and> j < count_offscreens wld \<longrightarrow>
                 rd_cell a' j = rd_cell (offscreen_api_surface wld) j"
    and cs: "if \<exists>k. 0 \<le> k \<and> k < count_offscreens wld
                      \<and> rd_cell (offscreen_api_surface wld) k = Some None
               then rank < count_offscreens wld
                    \<and> rd_cell (offscreen_api_surface wld) rank = Some None
                    \<and> (\<forall>j. 0 \<le> j \<and> j < rank \<longrightarrow> rd_cell (offscreen_api_surface wld) j \<noteq> Some None)
                    \<and> c' = count_offscreens wld \<and> m' = max_offscreens wld
                    \<and> a' = offscreen_api_surface wld
               else rank = count_offscreens wld \<and> c' = count_offscreens wld + 1
                    \<and> (if count_offscreens wld \<ge> max_offscreens wld
                        then m' = max_offscreens wld + 20
                             \<and> a' = offscreen_api_surface wld @ replicate 20 Uninit
                        else m' = max_offscreens wld \<and> a' = offscreen_api_surface wld)"
    using fl_create_offscreen_result[OF ok, of w h] by blast
  let ?wld' = "wld\<lparr>count_offscreens := c', max_offscreens := m',
                        offscreen_api_surface := a'[nat rank := Val (Some ?s)],
                        surfaces := surfaces wld @ [Some \<lparr>platform_surface = Some (length (drivers wld))\<rparr>],
                        offscreens := offscreens wld @
                          [Some (blank_buffer (round (of_int w * screen_scale wld))
                                              (round (of_int h * screen_scale wld)))],
                        drivers := drivers wld @
                          [Some \<lparr>width = w, height = h, offscreen = ?off,
                                 image_surface = Some ?s,
                                 external_offscreen = False\<rparr>]\<rparr>"
  have 1: "rd_cell (offscreen_api_surface ?wld') rank = Some (Some ?s)"
    using rd_cell_update[OF rg] by simp
  have 2: "heap_get (surfaces wld) ?s = None \<and> heap_get (surfaces ?wld') ?s \<noteq> None"
    by (simp add: heap_get_def)
  have 3: "Fl_Image_Surface_offscreen ?s ?wld' = Some ?off"
    by (simp add: Fl_Image_Surface_offscreen_def heap_get_append)
  have 4: "\<forall>j. 0 \<le> j \<and> j < count_offscreens wld \<and> j \<noteq> rank \<longrightarrow>
                 rd_cell (offscreen_api_surface ?wld') j = rd_cell (offscreen_api_surface wld) j"
    using rd_cell_update[OF rg] keep by simp
  have 5: "if \<exists>k. 0 \<le> k \<and> k < count_offscreens wld
                      \<and> rd_cell (offscreen_api_surface wld) k = Some None
               then rank < count_offscreens wld
                    \<and> rd_cell (offscreen_api_surface wld) rank = Some None
                    \<and> (\<forall>j. 0 \<le> j \<and> j < rank \<longrightarrow> rd_cell (offscreen_api_surface wld) j \<noteq> Some None)
                    \<and> count_offscreens ?wld' = count_offscreens wld
                    \<and> max_offscreens ?wld' = max_offscreens wld
                    \<and> length (offscreen_api_surface ?wld') = length (offscreen_api_surface wld)
               else rank = count_offscreens wld
                    \<and> count_offscreens ?wld' = count_offscreens wld + 1
                    \<and> (if count_offscreens wld \<ge> max_offscreens wld
                        then max_offscreens ?wld' = max_offscreens wld + 20
                             \<and> length (offscreen_api_surface ?wld') = length (offscreen_api_surface wld) + 20
                        else max_offscreens ?wld' = max_offscreens wld
                             \<and> length (offscreen_api_surface ?wld') = length (offscreen_api_surface wld))"
  proof (cases "\<exists>k. 0 \<le> k \<and> k < count_offscreens wld
                      \<and> rd_cell (offscreen_api_surface wld) k = Some None")
    case True
    then show ?thesis using cs by (simp only: if_True) simp
  next
    case False
    then show ?thesis using cs by (simp only: if_False) (auto split: if_splits)
  qed
  show ?thesis
    apply (rule exI[of _ ?off], rule exI[of _ ?wld'], rule exI[of _ rank], rule exI[of _ ?s])
    apply (rule conjI, fact r)
    apply (rule conjI, fact rg(1))
    apply (rule conjI, fact 1)
    apply (rule conjI, rule conjunct1[OF 2])
    apply (rule conjI, rule conjunct2[OF 2])
    apply (rule conjI, fact 3)
    apply (rule conjI, fact 4)
    apply (fact 5)
    done
qed

text \<open>
  The theorem after three creations and the deletion of the surface in slot 1: the next
  creation stores its surface in slot 1, and the count stays 3. The first creation of all
  made the array 20 cells long.
\<close>

theorem fl_create_offscreen_slot_witness:
  "registry_reachable deleted_world
   \<and> fl_create_offscreen 10 5 (initial_world 2) = Some (1, hires_world)
   \<and> count_offscreens hires_world = 1 \<and> max_offscreens hires_world = 20
   \<and> length (offscreen_api_surface hires_world) = 20
   \<and> fl_delete_offscreen 2 three_world = Some deleted_world
   \<and> rd_cell (offscreen_api_surface deleted_world) 0 = Some (Some 0)
   \<and> rd_cell (offscreen_api_surface deleted_world) 1 = Some None
   \<and> rd_cell (offscreen_api_surface deleted_world) 2 = Some (Some 2)
   \<and> fl_create_offscreen 7 7 deleted_world = Some (4, reused_world)
   \<and> rd_cell (offscreen_api_surface reused_world) 1 = Some (Some 3)
   \<and> count_offscreens reused_world = 3 \<and> max_offscreens reused_world = 20"
proof -
  have e1: "fl_create_offscreen 10 5 (initial_world 2) = Some (1, hires_world)"
    by code_simp
  have e2: "(fl_create_offscreen 3 3 hires_world \<bind> (\<lambda>(off, w). fl_create_offscreen 4 4 w))
              = Some (3, three_world)"
    by code_simp
  have e3: "fl_delete_offscreen 2 three_world = Some deleted_world"
    by code_simp
  have e4: "fl_create_offscreen 7 7 deleted_world = Some (4, reused_world)"
    by code_simp
  obtain off w where e2a: "fl_create_offscreen 3 3 hires_world = Some (off, w)"
    and e2b: "fl_create_offscreen 4 4 w = Some (3, three_world)"
    using e2 by (auto simp: bind_eq_Some_conv)
  have r1: "registry_reachable hires_world"
    using registry_reachable.create[OF registry_reachable.start e1] .
  have r3: "registry_reachable three_world"
    using registry_reachable.create[OF registry_reachable.create[OF r1 e2a] e2b] .
  have reach: "registry_reachable deleted_world"
    using registry_reachable.delete[OF r3 e3] .
  have c0: "rd_cell (offscreen_api_surface deleted_world) 0 = Some (Some 0)"
    and c1: "rd_cell (offscreen_api_surface deleted_world) 1 = Some None"
    and c2: "rd_cell (offscreen_api_surface deleted_world) 2 = Some (Some 2)"
    by code_simp+
  have cnt: "count_offscreens deleted_world = 3" "max_offscreens deleted_world = 20"
    by (simp_all add: deleted_world_def three_world_def)
  have free: "\<exists>k. 0 \<le> k \<and> k < count_offscreens deleted_world
                 \<and> rd_cell (offscreen_api_surface deleted_world) k = Some None"
    using c1 cnt by (intro exI[of _ 1]) simp
  obtain off' wld' rank s where
    cr: "fl_create_offscreen 7 7 deleted_world = Some (off', wld')"
    and rk: "0 \<le> rank"
    and st: "rd_cell (offscreen_api_surface wld') rank = Some (Some s)"
    and cs: "if \<exists>k. 0 \<le> k \<and> k < count_offscreens deleted_world
                      \<and> rd_cell (offscreen_api_surface deleted_world) k = Some None
               then rank < count_offscreens deleted_world
                    \<and> rd_cell (offscreen_api_surface deleted_world) rank = Some None
                    \<and> (\<forall>j. 0 \<le> j \<and> j < rank \<longrightarrow> rd_cell (offscreen_api_surface deleted_world) j \<noteq> Some None)
                    \<and> count_offscreens wld' = count_offscreens deleted_world
                    \<and> max_offscreens wld' = max_offscreens deleted_world
                    \<and> length (offscreen_api_surface wld') = length (offscreen_api_surface deleted_world)
               else rank = count_offscreens deleted_world
                    \<and> count_offscreens wld' = count_offscreens deleted_world + 1
                    \<and> (if count_offscreens deleted_world \<ge> max_offscreens deleted_world
                        then max_offscreens wld' = max_offscreens deleted_world + 20
                             \<and> length (offscreen_api_surface wld') = length (offscreen_api_surface deleted_world) + 20
                        else max_offscreens wld' = max_offscreens deleted_world
                             \<and> length (offscreen_api_surface wld') = length (offscreen_api_surface deleted_world))"
    using fl_create_offscreen_slot[OF reach, of 7 7] by blast
  have hit: "rank < 3" "rd_cell (offscreen_api_surface deleted_world) rank = Some None"
    "count_offscreens wld' = 3" "max_offscreens wld' = 20"
    using cs free cnt by simp_all
  have "rank = 0 \<or> rank = 1 \<or> rank = 2" using rk hit(1) by linarith
  then have rank1: "rank = 1" using hit(2) c0 c2 by auto
  have w: "wld' = reused_world" "off' = 4" using cr e4 by simp_all
  have s1: "rd_cell (offscreen_api_surface reused_world) 1 = Some (Some s)"
    using st rank1 w by simp
  have s2: "rd_cell (offscreen_api_surface reused_world) 1 = Some (Some 3)"
    by code_simp
  have fin: "count_offscreens reused_world = 3" "max_offscreens reused_world = 20"
    using hit(3,4) w by simp_all
  have h: "count_offscreens hires_world = 1" "max_offscreens hires_world = 20"
    "length (offscreen_api_surface hires_world) = 20"
    by (simp_all add: hires_world_def)
  show ?thesis
    using reach e1 h e3 c0 c1 c2 e4 s2 fin by simp
qed

text \<open>
  Claim C8. \<open>fl_delete_offscreen\<close> of the null handle returns the state as it is. So do
  \<open>fl_delete_offscreen\<close> and \<open>fl_begin_offscreen\<close> of a handle that no slot in use owns.
  When \<open>k\<close> is the first slot whose surface has the handle \<open>ctx\<close>, and the destructor
  can run (the buffer is there or borrowed, and the activation stack can be popped if the
  surface is active), \<open>fl_delete_offscreen\<close> returns: slot \<open>k\<close> is null and every other
  cell is as before, the count and the capacity are unchanged, the surface and its driver
  are gone, and every other surface and driver is as before.
\<close>

theorem fl_delete_offscreen_lookup:
  "fl_delete_offscreen 0 wld = Some wld
   \<and> ((\<forall>j. 0 \<le> j \<and> j < count_offscreens wld \<longrightarrow> slot_owns j ctx wld = Some False) \<longrightarrow>
        fl_delete_offscreen ctx wld = Some wld \<and> fl_begin_offscreen ctx wld = Some wld)
   \<and> (ctx \<noteq> 0 \<and> 0 \<le> k \<and> k < count_offscreens wld
        \<and> (\<forall>j. 0 \<le> j \<and> j < k \<longrightarrow> slot_owns j ctx wld = Some False)
        \<and> rd_cell (offscreen_api_surface wld) k = Some (Some p)
        \<and> heap_get (surfaces wld) p = Some surf \<and> platform_surface surf = Some q
        \<and> heap_get (drivers wld) q = Some drv \<and> offscreen drv = ctx
        \<and> (external_offscreen drv \<or> offscreen_get wld ctx \<noteq> None)
        \<and> (current_surface wld = Driver_Device q \<longrightarrow> pop_current wld \<noteq> None) \<longrightarrow>
        (\<exists>w'. fl_delete_offscreen ctx wld = Some w'
           \<and> offscreen_api_surface w' = (offscreen_api_surface wld)[nat k := Val None]
           \<and> rd_cell (offscreen_api_surface w') k = Some None
           \<and> (\<forall>j. j \<noteq> k \<longrightarrow> rd_cell (offscreen_api_surface w') j = rd_cell (offscreen_api_surface wld) j)
           \<and> count_offscreens w' = count_offscreens wld
           \<and> max_offscreens w' = max_offscreens wld
           \<and> heap_get (surfaces w') p = None
           \<and> (\<forall>s. s \<noteq> p \<longrightarrow> heap_get (surfaces w') s = heap_get (surfaces wld) s)
           \<and> heap_get (drivers w') q = None
           \<and> (\<forall>r. r \<noteq> q \<longrightarrow> heap_get (drivers w') r = heap_get (drivers wld) r)))"
proof (intro conjI impI)
  show "fl_delete_offscreen 0 wld = Some wld"
    by (simp add: fl_delete_offscreen_def)
next
  assume m: "\<forall>j. 0 \<le> j \<and> j < count_offscreens wld \<longrightarrow> slot_owns j ctx wld = Some False"
  show "fl_delete_offscreen ctx wld = Some wld"
    using fl_delete_offscreen_loop_miss[OF m] by (simp add: fl_delete_offscreen_def)
  show "fl_begin_offscreen ctx wld = Some wld"
    using fl_begin_offscreen_loop_miss[OF m] by (simp add: fl_begin_offscreen_def)
next
  assume a: "ctx \<noteq> 0 \<and> 0 \<le> k \<and> k < count_offscreens wld
        \<and> (\<forall>j. 0 \<le> j \<and> j < k \<longrightarrow> slot_owns j ctx wld = Some False)
        \<and> rd_cell (offscreen_api_surface wld) k = Some (Some p)
        \<and> heap_get (surfaces wld) p = Some surf \<and> platform_surface surf = Some q
        \<and> heap_get (drivers wld) q = Some drv \<and> offscreen drv = ctx
        \<and> (external_offscreen drv \<or> offscreen_get wld ctx \<noteq> None)
        \<and> (current_surface wld = Driver_Device q \<longrightarrow> pop_current wld \<noteq> None)"
  then have rc: "rd_cell (offscreen_api_surface wld) k = Some (Some p)"
    and s: "heap_get (surfaces wld) p = Some surf" and ps: "platform_surface surf = Some q"
    and d: "heap_get (drivers wld) q = Some drv" and o: "offscreen drv = ctx"
    and m: "\<forall>j. 0 \<le> j \<and> j < k \<longrightarrow> slot_owns j ctx wld = Some False"
    and k: "0 \<le> k" "k < count_offscreens wld" and nz: "ctx \<noteq> 0"
    by auto
  have b: "external_offscreen drv \<or> offscreen drv = 0 \<or> offscreen_get wld (offscreen drv) \<noteq> None"
    using a o by auto
  have c: "current_surface wld = Driver_Device q \<longrightarrow> pop_current wld \<noteq> None"
    using a by auto
  have own: "slot_owns k ctx wld = Some True"
    using slot_owns_True[OF rc] Fl_Image_Surface_offscreen_live[OF s ps d] o by simp
  obtain w1 where del: "Fl_Image_Surface_delete p wld = Some w1"
    and f: "surfaces w1 = (surfaces wld)[p := None]" "drivers w1 = (drivers wld)[q := None]"
      "offscreen_api_surface w1 = offscreen_api_surface wld"
      "count_offscreens w1 = count_offscreens wld" "max_offscreens w1 = max_offscreens wld"
    using Fl_Image_Surface_delete_result[OF s ps d b c] by blast
  note rg = rd_cell_range[OF rc]
  let ?arr = "(offscreen_api_surface wld)[nat k := Val None]"
  have w: "wr (offscreen_api_surface w1) k (Val None) = Some ?arr"
    using rg by (simp add: wr_def f)
  have r: "fl_delete_offscreen ctx wld = Some (w1\<lparr>offscreen_api_surface := ?arr\<rparr>)"
    unfolding fl_delete_offscreen_def
    using nz fl_delete_offscreen_loop_hit[OF k(1,2) m own]
    by (simp add: rc del w)
  have lt: "p < length (surfaces wld)" "q < length (drivers wld)"
    using heap_get_lt[OF s] heap_get_lt[OF d] by auto
  show "\<exists>w'. fl_delete_offscreen ctx wld = Some w'
           \<and> offscreen_api_surface w' = (offscreen_api_surface wld)[nat k := Val None]
           \<and> rd_cell (offscreen_api_surface w') k = Some None
           \<and> (\<forall>j. j \<noteq> k \<longrightarrow> rd_cell (offscreen_api_surface w') j = rd_cell (offscreen_api_surface wld) j)
           \<and> count_offscreens w' = count_offscreens wld
           \<and> max_offscreens w' = max_offscreens wld
           \<and> heap_get (surfaces w') p = None
           \<and> (\<forall>s. s \<noteq> p \<longrightarrow> heap_get (surfaces w') s = heap_get (surfaces wld) s)
           \<and> heap_get (drivers w') q = None
           \<and> (\<forall>r. r \<noteq> q \<longrightarrow> heap_get (drivers w') r = heap_get (drivers wld) r)"
    unfolding r using f lt rd_cell_update[OF rg(1,2)]
    by (intro exI[of _ "w1\<lparr>offscreen_api_surface := ?arr\<rparr>"]) (simp add: heap_get_update)
qed

text \<open>
  The theorem at \<open>three_world\<close>: no slot owns the handle 77, and slot 1 is the first to
  own the handle 2.
\<close>

theorem fl_delete_offscreen_lookup_witness:
  "fl_delete_offscreen 0 three_world = Some three_world
   \<and> slot_owns 0 77 three_world = Some False \<and> slot_owns 1 77 three_world = Some False
   \<and> slot_owns 2 77 three_world = Some False
   \<and> fl_delete_offscreen 77 three_world = Some three_world
   \<and> fl_begin_offscreen 77 three_world = Some three_world
   \<and> slot_owns 0 2 three_world = Some False
   \<and> rd_cell (offscreen_api_surface three_world) 1 = Some (Some 1)
   \<and> Fl_Image_Surface_offscreen 1 three_world = Some 2
   \<and> fl_delete_offscreen 2 three_world = Some deleted_world
   \<and> rd_cell (offscreen_api_surface deleted_world) 1 = Some None
   \<and> heap_get (surfaces deleted_world) 1 = None"
proof -
  let ?drv = "\<lparr>width = 3, height = 3, offscreen = 2, image_surface = Some 1,
                       external_offscreen = False\<rparr>"
  have cnt: "count_offscreens three_world = 3" by (simp add: three_world_def)
  have m77: "slot_owns 0 77 three_world = Some False" "slot_owns 1 77 three_world = Some False"
    "slot_owns 2 77 three_world = Some False"
    by code_simp+
  have miss: "\<forall>j. 0 \<le> j \<and> j < count_offscreens three_world \<longrightarrow> slot_owns j 77 three_world = Some False"
    unfolding cnt using m77 int_cases_3 by blast
  have m2: "slot_owns 0 2 three_world = Some False" by code_simp
  have before: "\<forall>j. 0 \<le> j \<and> j < 1 \<longrightarrow> slot_owns j 2 three_world = Some False"
  proof (intro allI impI)
    fix j :: int assume "0 \<le> j \<and> j < 1"
    then have "j = 0" by linarith
    then show "slot_owns j 2 three_world = Some False" using m2 by simp
  qed
  have rc: "rd_cell (offscreen_api_surface three_world) 1 = Some (Some 1)" by code_simp
  have s: "heap_get (surfaces three_world) 1 = Some \<lparr>platform_surface = Some 1\<rparr>" by code_simp
  have d: "heap_get (drivers three_world) 1 = Some ?drv" by code_simp
  have b: "offscreen_get three_world 2 \<noteq> None"
    by (simp add: three_world_def offscreen_get_def heap_get_def)
  have c: "current_surface three_world \<noteq> Driver_Device 1" by (simp add: three_world_def)
  have off: "Fl_Image_Surface_offscreen 1 three_world = Some 2" by code_simp
  have ev: "fl_delete_offscreen 2 three_world = Some deleted_world" by code_simp
  note t = fl_delete_offscreen_lookup[of three_world 77 2 1 "\<lparr>platform_surface = Some 1\<rparr>" 1 ?drv]
  note u = fl_delete_offscreen_lookup[of three_world 2 1 1 "\<lparr>platform_surface = Some 1\<rparr>" 1 ?drv]
  have 0: "fl_delete_offscreen 0 three_world = Some three_world" using t by blast
  have 1: "fl_delete_offscreen 77 three_world = Some three_world
           \<and> fl_begin_offscreen 77 three_world = Some three_world"
    using t miss by blast
  have prem: "(2::nat) \<noteq> 0 \<and> (0::int) \<le> 1 \<and> 1 < count_offscreens three_world
        \<and> (\<forall>j. 0 \<le> j \<and> j < 1 \<longrightarrow> slot_owns j 2 three_world = Some False)
        \<and> rd_cell (offscreen_api_surface three_world) 1 = Some (Some 1)
        \<and> heap_get (surfaces three_world) 1 = Some \<lparr>platform_surface = Some 1\<rparr>
        \<and> platform_surface \<lparr>platform_surface = Some 1\<rparr> = Some 1
        \<and> heap_get (drivers three_world) 1 = Some ?drv \<and> offscreen ?drv = 2
        \<and> (external_offscreen ?drv \<or> offscreen_get three_world 2 \<noteq> None)
        \<and> (current_surface three_world = Driver_Device 1 \<longrightarrow> pop_current three_world \<noteq> None)"
    using before rc s d b c cnt by (intro conjI) simp_all
  have "\<exists>w'. fl_delete_offscreen 2 three_world = Some w'
           \<and> rd_cell (offscreen_api_surface w') 1 = Some None
           \<and> heap_get (surfaces w') 1 = None"
    using mp[OF u[THEN conjunct2, THEN conjunct2] prem] by blast
  then have 2: "rd_cell (offscreen_api_surface deleted_world) 1 = Some None
           \<and> heap_get (surfaces deleted_world) 1 = None"
    using ev by simp
  show ?thesis using 0 m77 1 m2 rc off ev 2 by simp
qed

text \<open>
  Claim C9. \<open>fl_rescale_offscreen\<close> of a handle that no slot in use owns returns the
  handle and the state as they are. When \<open>k\<close> is the first slot whose surface \<open>p\<close> has the
  handle \<open>ctx\<close>, and \<open>p\<close> has a buffer and is not active, it returns the state
  \<open>rescale\<close> makes of \<open>p\<close>, and the handle it returns in \<open>ctx\<close> is the \<open>offscreen()\<close> of
  \<open>p\<close> in that state, the handle of the new driver's live buffer. The registry is
  unchanged.
\<close>

theorem fl_rescale_offscreen_handle:
  "((\<forall>j. 0 \<le> j \<and> j < count_offscreens wld \<longrightarrow> slot_owns j ctx wld = Some False) \<longrightarrow>
        fl_rescale_offscreen draw ctx wld = Some (ctx, wld))
   \<and> (0 \<le> k \<and> k < count_offscreens wld
        \<and> (\<forall>j. 0 \<le> j \<and> j < k \<longrightarrow> slot_owns j ctx wld = Some False)
        \<and> rd_cell (offscreen_api_surface wld) k = Some (Some p)
        \<and> heap_get (surfaces wld) p = Some surf \<and> platform_surface surf = Some q
        \<and> heap_get (drivers wld) q = Some drv \<and> offscreen drv = ctx
        \<and> offscreen_get wld ctx = Some buf
        \<and> device_live wld (current_surface wld) \<and> current_surface wld \<noteq> Driver_Device q \<longrightarrow>
        (\<exists>ctx' w' q' drv'. fl_rescale_offscreen draw ctx wld = Some (ctx', w')
           \<and> rescale draw p wld = Some w'
           \<and> Fl_Image_Surface_offscreen p w' = Some ctx'
           \<and> heap_get (surfaces w') p = Some (surf\<lparr>platform_surface := Some q'\<rparr>)
           \<and> heap_get (drivers w') q' = Some drv' \<and> offscreen drv' = ctx'
           \<and> offscreen_get w' ctx' \<noteq> None
           \<and> offscreen_api_surface w' = offscreen_api_surface wld
           \<and> count_offscreens w' = count_offscreens wld
           \<and> max_offscreens w' = max_offscreens wld))"
proof (intro conjI impI)
  assume m: "\<forall>j. 0 \<le> j \<and> j < count_offscreens wld \<longrightarrow> slot_owns j ctx wld = Some False"
  have "fl_rescale_offscreen_loop ctx 0 wld = Some (max 0 (count_offscreens wld))"
    by (rule fl_rescale_offscreen_loop_miss[OF m])
  then show "fl_rescale_offscreen draw ctx wld = Some (ctx, wld)"
    by (simp add: fl_rescale_offscreen_def)
next
  assume a: "0 \<le> k \<and> k < count_offscreens wld
        \<and> (\<forall>j. 0 \<le> j \<and> j < k \<longrightarrow> slot_owns j ctx wld = Some False)
        \<and> rd_cell (offscreen_api_surface wld) k = Some (Some p)
        \<and> heap_get (surfaces wld) p = Some surf \<and> platform_surface surf = Some q
        \<and> heap_get (drivers wld) q = Some drv \<and> offscreen drv = ctx
        \<and> offscreen_get wld ctx = Some buf
        \<and> device_live wld (current_surface wld) \<and> current_surface wld \<noteq> Driver_Device q"
  then have rc: "rd_cell (offscreen_api_surface wld) k = Some (Some p)"
    and s: "heap_get (surfaces wld) p = Some surf" and ps: "platform_surface surf = Some q"
    and d: "heap_get (drivers wld) q = Some drv" and o: "offscreen drv = ctx"
    and b: "offscreen_get wld (offscreen drv) = Some buf"
    and c: "device_live wld (current_surface wld)" and n: "current_surface wld \<noteq> Driver_Device q"
    and m: "\<forall>j. 0 \<le> j \<and> j < k \<longrightarrow> slot_owns j ctx wld = Some False"
    and k: "0 \<le> k" "k < count_offscreens wld"
    by auto
  have own: "slot_owns k ctx wld = Some True"
    using slot_owns_True[OF rc] Fl_Image_Surface_offscreen_live[OF s ps d] o by simp
  let ?q' = "length (drivers wld)"
  let ?ctx' = "length (offscreens wld) + 1"
  let ?drv' = "\<lparr>width = width drv, height = height drv, offscreen = ?ctx', image_surface = None,
                external_offscreen = False\<rparr>"
  obtain w' where r: "rescale draw p wld = Some w'"
    and f: "surfaces w' = (surfaces wld)[p := Some (surf\<lparr>platform_surface := Some ?q'\<rparr>)]"
      "drivers w' = (drivers wld)[q := None] @ [Some ?drv']"
      "\<exists>bs b. offscreens w' = bs @ [Some b] \<and> length bs = length (offscreens wld)"
      "offscreen_api_surface w' = offscreen_api_surface wld"
      "count_offscreens w' = count_offscreens wld" "max_offscreens w' = max_offscreens wld"
    using rescale_result[OF s ps d b c n, of draw] by simp
  have lt: "p < length (surfaces wld)" using heap_get_lt[OF s] .
  have s': "heap_get (surfaces w') p = Some (surf\<lparr>platform_surface := Some ?q'\<rparr>)"
    using lt by (simp add: f heap_get_update)
  have d': "heap_get (drivers w') ?q' = Some ?drv'"
    by (simp add: f heap_get_append)
  have off: "Fl_Image_Surface_offscreen p w' = Some ?ctx'"
    using Fl_Image_Surface_offscreen_live[OF s' _ d'] by simp
  have b': "offscreen_get w' ?ctx' \<noteq> None"
    using f(3) by (auto simp: offscreen_get_def heap_get_def nth_append)
  have lk: "fl_rescale_offscreen_loop ctx 0 wld = Some k"
    by (rule fl_rescale_offscreen_loop_hit[OF k(1,2) m own])
  have res: "fl_rescale_offscreen draw ctx wld = Some (?ctx', w')"
    unfolding fl_rescale_offscreen_def using k
    by (simp add: lk rc r f(4) off)
  show "\<exists>ctx' w' q' drv'. fl_rescale_offscreen draw ctx wld = Some (ctx', w')
           \<and> rescale draw p wld = Some w'
           \<and> Fl_Image_Surface_offscreen p w' = Some ctx'
           \<and> heap_get (surfaces w') p = Some (surf\<lparr>platform_surface := Some q'\<rparr>)
           \<and> heap_get (drivers w') q' = Some drv' \<and> offscreen drv' = ctx'
           \<and> offscreen_get w' ctx' \<noteq> None
           \<and> offscreen_api_surface w' = offscreen_api_surface wld
           \<and> count_offscreens w' = count_offscreens wld
           \<and> max_offscreens w' = max_offscreens wld"
    apply (rule exI[of _ ?ctx'], rule exI[of _ w'], rule exI[of _ ?q'], rule exI[of _ ?drv'])
    using res r off s' d' b' f(4,5,6) by simp
qed

text \<open>
  The theorem at \<open>hires_world\<close> with the scale factor changed to \<open>3 / 2\<close>: the handle 1
  becomes 2, and the handle 77 is left alone.
\<close>

theorem fl_rescale_offscreen_handle_witness:
  "slot_owns 0 77 (hires_world\<lparr>screen_scale := 3 / 2\<rparr>) = Some False
   \<and> fl_rescale_offscreen example_draw 77 (hires_world\<lparr>screen_scale := 3 / 2\<rparr>)
       = Some (77, hires_world\<lparr>screen_scale := 3 / 2\<rparr>)
   \<and> rd_cell (offscreen_api_surface (hires_world\<lparr>screen_scale := 3 / 2\<rparr>)) 0 = Some (Some 0)
   \<and> Fl_Image_Surface_offscreen 0 (hires_world\<lparr>screen_scale := 3 / 2\<rparr>) = Some 1
   \<and> fl_rescale_offscreen example_draw 1 (hires_world\<lparr>screen_scale := 3 / 2\<rparr>)
       = Some (2, rescaled_world)
   \<and> Fl_Image_Surface_offscreen 0 rescaled_world = Some 2"
proof -
  let ?W = "hires_world\<lparr>screen_scale := 3 / 2\<rparr>"
  let ?drv = "\<lparr>width = 10, height = 5, offscreen = 1, image_surface = Some 0,
                       external_offscreen = False\<rparr>"
  let ?buf = "\<lparr>buf_w = 20, buf_h = 10, buf_pixels = replicate 600 0\<rparr>"
  have cnt: "count_offscreens ?W = 1" by (simp add: hires_world_def)
  have m77: "slot_owns 0 77 ?W = Some False" by code_simp
  have miss: "\<forall>j. 0 \<le> j \<and> j < count_offscreens ?W \<longrightarrow> slot_owns j 77 ?W = Some False"
  proof (intro allI impI)
    fix j :: int assume "0 \<le> j \<and> j < count_offscreens ?W"
    then have "j = 0" unfolding cnt by linarith
    then show "slot_owns j 77 ?W = Some False" using m77 by simp
  qed
  have rc: "rd_cell (offscreen_api_surface ?W) 0 = Some (Some 0)" by code_simp
  have s: "heap_get (surfaces ?W) 0 = Some \<lparr>platform_surface = Some 0\<rparr>" by code_simp
  have d: "heap_get (drivers ?W) 0 = Some ?drv" by code_simp
  have b: "offscreen_get ?W 1 = Some ?buf"
    by (simp add: hires_world_def offscreen_get_def heap_get_def)
  have c: "device_live ?W (current_surface ?W)" "current_surface ?W \<noteq> Driver_Device 0"
    by (simp_all add: hires_world_def device_live_def)
  have off: "Fl_Image_Surface_offscreen 0 ?W = Some 1" by code_simp
  have ev: "fl_rescale_offscreen example_draw 1 ?W = Some (2, rescaled_world)" by code_simp
  note t = fl_rescale_offscreen_handle[of ?W 77 example_draw 0 0 "\<lparr>platform_surface = Some 0\<rparr>" 0 ?drv ?buf]
  note u = fl_rescale_offscreen_handle[of ?W 1 example_draw 0 0 "\<lparr>platform_surface = Some 0\<rparr>" 0 ?drv ?buf]
  have 1: "fl_rescale_offscreen example_draw 77 ?W = Some (77, ?W)"
    using t miss by blast
  have before: "\<forall>j. 0 \<le> j \<and> j < 0 \<longrightarrow> slot_owns j 1 ?W = Some False"
    by auto
  have prem: "(0::int) \<le> 0 \<and> 0 < count_offscreens ?W
        \<and> (\<forall>j. 0 \<le> j \<and> j < 0 \<longrightarrow> slot_owns j 1 ?W = Some False)
        \<and> rd_cell (offscreen_api_surface ?W) 0 = Some (Some 0)
        \<and> heap_get (surfaces ?W) 0 = Some \<lparr>platform_surface = Some 0\<rparr>
        \<and> platform_surface \<lparr>platform_surface = Some 0\<rparr> = Some 0
        \<and> heap_get (drivers ?W) 0 = Some ?drv \<and> offscreen ?drv = 1
        \<and> offscreen_get ?W 1 = Some ?buf
        \<and> device_live ?W (current_surface ?W) \<and> current_surface ?W \<noteq> Driver_Device 0"
    using before rc s d b c cnt by (intro conjI) simp_all
  have "\<exists>ctx' w'. fl_rescale_offscreen example_draw 1 ?W = Some (ctx', w')
           \<and> Fl_Image_Surface_offscreen 0 w' = Some ctx'"
    using mp[OF u[THEN conjunct2] prem] by blast
  then have 2: "Fl_Image_Surface_offscreen 0 rescaled_world = Some 2"
    using ev by simp
  show ?thesis using m77 1 rc off ev 2 by simp
qed

end
